theory Spec2Isabelle
  imports Complex_Main
begin

section \<open>Numbers, arrays and errors of the source\<close>

text \<open>
  The calibration engine of \<^verbatim>\<open>src/js/calibration.js\<close> (the second, noise-floor-gated class
  of that file, lines 304 to 672) computes on JavaScript numbers. They are modelled as exact
  reals: \<^verbatim>\<open>Math.pow(10, x)\<close> is \<open>10 powr x\<close>, \<^verbatim>\<open>Math.log10\<close> is \<open>log 10\<close>, and the rounding of
  IEEE doubles and of \<^verbatim>\<open>Float32Array\<close> stores is not part of the model. Snapshot values are
  finite reals (the \<^verbatim>\<open>-Infinity\<close> that an analyser reports for a silent bin behaves in every
  comparison like a value below the noise floor). A read past the end of an array gives
  \<^verbatim>\<open>undefined\<close> in the source, and \<^verbatim>\<open>undefined > x\<close> is false there: every guarded read below
  carries its bounds test.
\<close>

datatype error = Error string | TypeError string

text \<open>
  Where a result of the source can be a number that is not finite, the model has the values
  of a JavaScript number by class: a finite real, the two infinities and NaN.
\<close>

datatype number = Finite real | PosInf | NegInf | NaN

text \<open>
  A lookup \<^verbatim>\<open>obj[name]\<close> on an object literal finds the object's own keys first and then the
  members that every object inherits from \<^verbatim>\<open>Object.prototype\<close>: functions, and the prototype
  object itself under \<^verbatim>\<open>__proto__\<close>. These are their names.
\<close>

definition Object_prototype :: "string list" where
  "Object_prototype =
     [''constructor'', ''hasOwnProperty'', ''isPrototypeOf'', ''propertyIsEnumerable'',
      ''toLocaleString'', ''toString'', ''valueOf'', ''__proto__'',
      ''__defineGetter__'', ''__defineSetter__'', ''__lookupGetter__'', ''__lookupSetter__'']"

text \<open>\<^verbatim>\<open>Math.round\<close> rounds to the nearest integer, a tie going up.\<close>

definition Math_round :: "real \<Rightarrow> real" where
  "Math_round x = of_int \<lfloor>x + 1 / 2\<rfloor>"

text \<open>\<^verbatim>\<open>Math.max(...xs)\<close>; \<open>None\<close> stands for the \<^verbatim>\<open>-Infinity\<close> of an empty argument list.\<close>

fun Math_max :: "real list \<Rightarrow> real option" where
  "Math_max [] = None"
| "Math_max (x # xs) = Some (fold max xs x)"

section \<open>The audio processor: band grid and sample rate\<close>

record AudioProcessor =
  frequencies :: "real list"
  sampleRate :: real

text \<open>The constructor of \<^verbatim>\<open>AudioProcessor\<close>; the sample rate is the audio context's.\<close>

definition new_AudioProcessor :: "real \<Rightarrow> AudioProcessor" where
  "new_AudioProcessor sr =
     \<lparr> frequencies =
         [20, 25, 31.5, 40, 50, 63, 80, 100, 125, 160,
          200, 250, 315, 400, 500, 630, 800, 1000, 1250, 1600,
          2000, 2500, 3150, 4000, 5000, 6300, 8000, 10000, 12500, 16000, 20000],
       sampleRate = sr \<rparr>"

definition getFrequencies :: "AudioProcessor \<Rightarrow> real list" where
  "getFrequencies ap = frequencies ap"

section \<open>The calibration object\<close>

record Calibration =
  audioProcessor :: AudioProcessor
  targetCurves :: "string \<rightharpoonup> real list"
  measurementData :: "real list list"
  referenceLevel :: real
  noiseFloor :: real

definition generateHarmanCurve :: "AudioProcessor \<Rightarrow> real list" where
  "generateHarmanCurve ap =
     map (\<lambda>freq. if freq < 100 then 6
                 else if freq < 200 then 3
                 else if freq < 1000 then 0
                 else if freq < 10000 then - 2
                 else - 4)
         (getFrequencies ap)"

definition generateBKCurve :: "AudioProcessor \<Rightarrow> real list" where
  "generateBKCurve ap =
     map (\<lambda>freq. let logFreq = log 10 freq in 10 - (logFreq - 1) * 3.33)
         (getFrequencies ap)"

definition new_Calibration :: "AudioProcessor \<Rightarrow> Calibration" where
  "new_Calibration ap =
     \<lparr> audioProcessor = ap,
       targetCurves =
         [''flat'' \<mapsto> replicate 31 0,
          ''harman'' \<mapsto> generateHarmanCurve ap,
          ''b&k'' \<mapsto> generateBKCurve ap,
          ''custom'' \<mapsto> replicate 31 0],
       measurementData = [],
       referenceLevel = - 20,
       noiseFloor = - 80 \<rparr>"

section \<open>Collecting measurements\<close>

text \<open>
  \<^verbatim>\<open>collectMeasurements\<close> runs its callback \<^verbatim>\<open>measure\<close> once per animation frame until the
  duration has elapsed. One run of the callback is a step on the pair of the local counter
  \<^verbatim>\<open>discardCount\<close> and the object; the frame is what \<^verbatim>\<open>getFloatFrequencyData\<close> wrote into
  \<^verbatim>\<open>dataArray\<close>. The frames of a run are given as a list, in order.
\<close>

definition exceeds :: "real option \<Rightarrow> real \<Rightarrow> bool" where
  "exceeds m x = (case m of None \<Rightarrow> False | Some v \<Rightarrow> v > x)"

definition measure_step :: "real list \<Rightarrow> int \<times> Calibration \<Rightarrow> int \<times> Calibration" where
  "measure_step dataArray s =
     (case s of (discardCount, c) \<Rightarrow>
        if discardCount > 0 then (discardCount - 1, c)
        else
          let maxLevel = Math_max dataArray in
          if exceeds maxLevel (noiseFloor c)
          then (discardCount, c\<lparr>measurementData := measurementData c @ [dataArray]\<rparr>)
          else (discardCount, c))"

definition collectMeasurements :: "real list list \<Rightarrow> Calibration \<Rightarrow> Calibration" where
  "collectMeasurements frames c = snd (fold measure_step frames (10, c))"

definition measureWithMusic :: "real list list \<Rightarrow> Calibration \<Rightarrow> Calibration" where
  "measureWithMusic frames c = collectMeasurements frames (c\<lparr>measurementData := []\<rparr>)"

section \<open>Averaging the retained snapshots\<close>

text \<open>
  The inner loop over \<^verbatim>\<open>this.measurementData\<close> at bin \<open>i\<close>, on the pair of the source's
  \<^verbatim>\<open>sum\<close> and \<^verbatim>\<open>count\<close>, written (sumv, count).
\<close>

fun avg_inner :: "real \<Rightarrow> nat \<Rightarrow> real list list \<Rightarrow> real \<times> nat \<Rightarrow> real \<times> nat" where
  "avg_inner nf i [] acc = acc"
| "avg_inner nf i (measurement # rest) acc =
     (case acc of (sumv, count) \<Rightarrow>
        if i < length measurement \<and> measurement ! i > nf
        then (let linear = 10 powr (measurement ! i / 20)
              in avg_inner nf i rest (sumv + linear * linear, count + 1))
        else avg_inner nf i rest (sumv, count))"

definition avg_bin :: "real \<Rightarrow> real list list \<Rightarrow> nat \<Rightarrow> real" where
  "avg_bin nf ms i =
     (case avg_inner nf i ms (0, 0) of (sumv, count) \<Rightarrow>
        if count > 0
        then (let avgLinear = sqrt (sumv / real count) in 20 * log 10 avgLinear)
        else nf)"

definition averageMeasurements :: "Calibration \<Rightarrow> error + real list" where
  "averageMeasurements c =
     (if length (measurementData c) = 0 then Inl (Error ''No measurement data'')
      else
        let len = length (hd (measurementData c));
            averaged = replicate len 0
        in Inr (fold (\<lambda>i averaged. averaged[i := avg_bin (noiseFloor c) (measurementData c) i])
                     [0..<len] averaged))"

section \<open>Extracting the band response\<close>

text \<open>
  The loop \<^verbatim>\<open>for (bin = startBin; bin <= endBin && bin < fftData.length; bin++)\<close> on the triple
  (sumv, count, reads), the source's \<^verbatim>\<open>sum\<close> and \<^verbatim>\<open>count\<close> and a list of reads. The third
  component is not in the source: it records every index at which the loop evaluates
  \<^verbatim>\<open>fftData[bin]\<close> (the conjunction \<^verbatim>\<open>bin >= 0 && ...\<close> does not evaluate its right side for a
  negative bin).
\<close>

function extract_loop ::
  "real list \<Rightarrow> real \<Rightarrow> int \<Rightarrow> int \<Rightarrow> real \<times> nat \<times> int list \<Rightarrow> real \<times> nat \<times> int list" where
  "extract_loop fftData nf bin endBin acc =
     (case acc of (sumv, count, reads) \<Rightarrow>
        if bin \<le> endBin \<and> bin < int (length fftData)
        then extract_loop fftData nf (bin + 1) endBin
               (if bin \<ge> 0
                then (if fftData ! nat bin > nf
                      then (sumv + fftData ! nat bin, count + 1, reads @ [bin])
                      else (sumv, count, reads @ [bin]))
                else (sumv, count, reads))
        else (sumv, count, reads))"
  by pat_completeness auto
termination
  by (relation "measure (\<lambda>(fftData, nf, bin, endBin, acc). nat (endBin + 1 - bin))") auto

text \<open>
  The window of one band. With an empty \<^verbatim>\<open>fftData\<close> the source's \<^verbatim>\<open>binWidth\<close> is
  \<^verbatim>\<open>Infinity\<close> and \<^verbatim>\<open>centerBin\<close> is 0, which is written out; the sample rate of an audio
  context is positive.
\<close>

definition band_window :: "Calibration \<Rightarrow> real list \<Rightarrow> real \<Rightarrow> int \<times> int" where
  "band_window c fftData freq =
     (let sampleRate = sampleRate (audioProcessor c);
          nyquist = sampleRate / 2;
          binWidth = nyquist / real (length fftData);
          centerBin = (if length fftData = 0 then 0 else freq / binWidth);
          startBin = \<lfloor>centerBin - 1\<rfloor>;
          endBin = \<lceil>centerBin + 1\<rceil>
      in (startBin, endBin))"

definition band_scan :: "Calibration \<Rightarrow> real list \<Rightarrow> real \<Rightarrow> real \<times> nat \<times> int list" where
  "band_scan c fftData freq =
     (case band_window c fftData freq of (startBin, endBin) \<Rightarrow>
        extract_loop fftData (noiseFloor c) startBin endBin (0, 0, []))"

definition band_response :: "Calibration \<Rightarrow> real list \<Rightarrow> real \<Rightarrow> real" where
  "band_response c fftData freq =
     (case band_scan c fftData freq of (sumv, count, reads) \<Rightarrow>
        if count > 0 then sumv / real count else noiseFloor c)"

definition band_reads :: "Calibration \<Rightarrow> real list \<Rightarrow> real \<Rightarrow> int list" where
  "band_reads c fftData freq = snd (snd (band_scan c fftData freq))"

definition extractFrequencyResponse :: "Calibration \<Rightarrow> real list \<Rightarrow> real list \<Rightarrow> real list" where
  "extractFrequencyResponse c fftData targetFrequencies =
     map (band_response c fftData) targetFrequencies"

section \<open>Fractional-octave smoothing\<close>

text \<open>
  \<^verbatim>\<open>{'1/3': 1/3, '1/6': 1/6, '1/12': 1/12}[smoothingType] || 1/3\<close>. The three fractions are found
  by name. A name inherited from \<^verbatim>\<open>Object.prototype\<close> finds a function or an object, which is
  truthy, so the default does not apply, and in the arithmetic of the bounds it is NaN: this
  is \<open>None\<close>. Any other name finds \<^verbatim>\<open>undefined\<close> and the default 1/3 applies.
\<close>

definition octaveFraction :: "string \<Rightarrow> real option" where
  "octaveFraction smoothingType =
     (case map_of [(''1/3'', 1 / 3), (''1/6'', 1 / 6), (''1/12'', 1 / 12)] smoothingType of
        Some q \<Rightarrow> Some q
      | None \<Rightarrow> if smoothingType \<in> set Object_prototype then None else Some (1 / 3))"

text \<open>One round of the inner loop over \<open>j\<close>, on the pair (sumv, count).\<close>

definition smooth_step ::
  "real list \<Rightarrow> real list \<Rightarrow> real \<Rightarrow> real \<Rightarrow> real \<Rightarrow> nat \<Rightarrow> real \<times> nat \<Rightarrow> real \<times> nat" where
  "smooth_step freqs data nf lowerBound upperBound j acc =
     (case acc of (sumv, count) \<Rightarrow>
        if freqs ! j \<ge> lowerBound \<and> freqs ! j \<le> upperBound
        then (if j < length data \<and> data ! j > nf then (sumv + data ! j, count + 1)
              else (sumv, count))
        else (sumv, count))"

text \<open>
  One round of the outer loop for a fraction that is a number. For an index past the band
  grid \<^verbatim>\<open>frequencies[i]\<close> is \<^verbatim>\<open>undefined\<close>, both bounds are NaN, no comparison holds and the
  entry stays.
\<close>

definition smooth_band :: "Calibration \<Rightarrow> real list \<Rightarrow> real \<Rightarrow> nat \<Rightarrow> real list \<Rightarrow> real list" where
  "smooth_band c data q i smoothed =
     (let freqs = getFrequencies (audioProcessor c) in
      if i < length freqs then
        (let centerFreq = freqs ! i;
             lowerBound = centerFreq * 2 powr (- q / 2);
             upperBound = centerFreq * 2 powr (q / 2)
         in case fold (smooth_step freqs data (noiseFloor c) lowerBound upperBound)
                      [0..<length freqs] (0, 0) of
              (sumv, count) \<Rightarrow>
                if count > 0 then smoothed[i := sumv / real count] else smoothed)
      else smoothed)"

text \<open>
  When the fraction is not a number both bounds are NaN in every round, no comparison holds,
  \<^verbatim>\<open>count\<close> stays 0 and the round leaves \<^verbatim>\<open>smoothed\<close> as it is.
\<close>

definition applySmoothing :: "Calibration \<Rightarrow> real list \<Rightarrow> string \<Rightarrow> real list" where
  "applySmoothing c data smoothingType =
     (case octaveFraction smoothingType of
        Some q \<Rightarrow> fold (smooth_band c data q) [0..<length data] data
      | None \<Rightarrow> fold (\<lambda>i smoothed. smoothed) [0..<length data] data)"

section \<open>Corrections\<close>

definition smoothCorrections :: "real list \<Rightarrow> real list" where
  "smoothCorrections corrections =
     fold (\<lambda>i smoothed.
             smoothed[i := Math_round
                (((corrections ! (i - 1) + corrections ! i + corrections ! (i + 1)) / 3) * 2) / 2])
          [1..<length corrections - 1] corrections"

text \<open>The body of the loop of \<^verbatim>\<open>calculateCorrections\<close> for one band.\<close>

definition band_correction :: "real \<Rightarrow> real \<Rightarrow> real" where
  "band_correction target measured =
     (let correction = target - measured;
          correction = correction * 0.7;
          correction = max (- 10) (min 10 correction);
          correction = Math_round (correction * 2) / 2
      in correction)"

text \<open>
  The lookup \<^verbatim>\<open>this.targetCurves[targetCurveName]\<close> finds a curve under an own key. A name
  inherited from \<^verbatim>\<open>Object.prototype\<close> finds a function or an object, whose \<^verbatim>\<open>[i]\<close> is
  \<^verbatim>\<open>undefined\<close>: every correction is NaN, through the clamp, both roundings and the neighbour
  mean, and the source returns one NaN per band without throwing. Any other name finds
  \<^verbatim>\<open>undefined\<close>, and the first \<^verbatim>\<open>targetCurve[i]\<close> throws a TypeError. The subtraction of
  \<^verbatim>\<open>maxResponse\<close> maps over the smoothed response, so for an empty response the result is empty
  whatever the maximum is. The reads \<^verbatim>\<open>targetCurve[i]\<close> and \<^verbatim>\<open>normalizedResponse[i]\<close> are in
  range for every object that the constructor builds: its curves and the band grid have 31
  entries each.
\<close>

definition calculateCorrections :: "Calibration \<Rightarrow> string \<Rightarrow> string \<Rightarrow> error + number list" where
  "calculateCorrections c targetCurveName smoothing =
     (if length (measurementData c) = 0
      then Inl (Error ''No valid measurement data collected'')
      else
        let targetCurve = targetCurves c targetCurveName;
            frequencies = getFrequencies (audioProcessor c)
        in case averageMeasurements c of
             Inl e \<Rightarrow> Inl e
           | Inr avgMeasurement \<Rightarrow>
              (let measuredResponse = extractFrequencyResponse c avgMeasurement frequencies;
                   smoothedResponse = applySmoothing c measuredResponse smoothing;
                   normalizedResponse =
                     (case Math_max smoothedResponse of
                        None \<Rightarrow> []
                      | Some maxResponse \<Rightarrow>
                          map (\<lambda>v. v - maxResponse + referenceLevel c) smoothedResponse)
               in (case targetCurve of
                     None \<Rightarrow>
                       if length frequencies = 0 then Inr (map Finite (smoothCorrections []))
                       else if targetCurveName \<in> set Object_prototype
                       then Inr (replicate (length frequencies) NaN)
                       else Inl (TypeError ''Cannot read properties of undefined'')
                   | Some curve \<Rightarrow>
                       Inr (map Finite
                             (smoothCorrections
                               (map (\<lambda>i. band_correction (curve ! i) (normalizedResponse ! i))
                                    [0..<length frequencies]))))))"

section \<open>Reference formulations\<close>

text \<open>
  The specification describes the averaged spectrum in closed form. At bin \<open>i\<close> the
  contributors are the values of the snapshots at that bin that lie strictly above the noise
  floor; the bin is the power mean of the contributors, and the noise floor when there is
  none.
\<close>

definition contributors :: "real \<Rightarrow> real list list \<Rightarrow> nat \<Rightarrow> real list" where
  "contributors nf ms i = map (\<lambda>m. m ! i) (filter (\<lambda>m. i < length m \<and> m ! i > nf) ms)"

definition power_mean_bin :: "real \<Rightarrow> real list list \<Rightarrow> nat \<Rightarrow> real" where
  "power_mean_bin nf ms i =
     (let vs = contributors nf ms i;
          S = (\<Sum>v\<leftarrow>vs. (10 powr (v / 20)) ^ 2);
          n = length vs
      in if n = 0 then nf else 20 * log 10 (sqrt (S / real n)))"

text \<open>Objects for concrete runs: a calibration object at 48 kHz holding given snapshots.\<close>

definition calibration_with :: "real list list \<Rightarrow> Calibration" where
  "calibration_with ms = (new_Calibration (new_AudioProcessor 48000))\<lparr>measurementData := ms\<rparr>"

text \<open>
  The bins of a window that count for a band: inside the array and strictly above the floor.
\<close>

definition window_bins :: "real list \<Rightarrow> real \<Rightarrow> int \<Rightarrow> int \<Rightarrow> int list" where
  "window_bins fftData nf startBin endBin =
     filter (\<lambda>b. 0 \<le> b \<and> b < int (length fftData) \<and> fftData ! nat b > nf) [startBin..endBin]"

text \<open>
  The smoothing of one band as the specification words it: the mean of the values above the
  floor at the bands whose centre frequency lies between two bounds, and the band's own value
  when there is none.
\<close>

definition window_values :: "real list \<Rightarrow> real list \<Rightarrow> real \<Rightarrow> real \<Rightarrow> real \<Rightarrow> real list" where
  "window_values freqs data nf lowerBound upperBound =
     map (\<lambda>j. data ! j)
       (filter (\<lambda>j. lowerBound \<le> freqs ! j \<and> freqs ! j \<le> upperBound \<and> j < length data \<and> data ! j > nf)
          [0..<length freqs])"

definition window_mean :: "Calibration \<Rightarrow> real list \<Rightarrow> nat \<Rightarrow> real \<Rightarrow> real \<Rightarrow> real" where
  "window_mean c data i lowerBound upperBound =
     (let vs = window_values (getFrequencies (audioProcessor c)) data (noiseFloor c)
                 lowerBound upperBound
      in if vs = [] then data ! i else sum_list vs / real (length vs))"

text \<open>The band grid that every \<^verbatim>\<open>AudioProcessor\<close> carries.\<close>

definition iso_bands :: "real list" where
  "iso_bands = frequencies (new_AudioProcessor 0)"

text \<open>A band response with one raised band, at 25 Hz.\<close>

definition spike_response :: "real list" where
  "spike_response = [0, 10, 0, 0, 0, 0, 0, 0, 0, 0,
                     0, 0, 0, 0, 0, 0, 0, 0, 0, 0,
                     0, 0, 0, 0, 0, 0, 0, 0, 0, 0, 0]"

text \<open>The properties of an entry of the correction vector.\<close>

definition multiple_of_half :: "real \<Rightarrow> bool" where
  "multiple_of_half x \<longleftrightarrow> x * 2 = of_int \<lfloor>x * 2\<rfloor>"

definition in_range :: "real \<Rightarrow> bool" where
  "in_range x \<longleftrightarrow> - 10 \<le> x \<and> x \<le> 10 \<and> multiple_of_half x"

text \<open>
  The snapshot of the end-to-end scenario, for the analyser of \<^verbatim>\<open>calibrate\<close> (\<^verbatim>\<open>fftSize\<close> 8192,
  so 4096 bins) at a sample rate of 48 kHz: bin \<open>k\<close> stands for the frequency \<open>k * binWidth\<close>.
\<close>

definition plateau_snapshot :: "real list" where
  "plateau_snapshot =
     map (\<lambda>k. let binWidth = (48000 / 2) / 4096; f = real k * binWidth
              in if 100 \<le> f \<and> f \<le> 10000 then - 20 else - 60)
         [0..<4096]"

definition plateau_session :: Calibration where
  "plateau_session = calibration_with (replicate 20 plateau_snapshot)"

section \<open>The averaging loop on numbers with their range\<close>

text \<open>
  The exact reals of the model above never overflow. Where a claim speaks of infinities and
  NaN, the loop of \<^verbatim>\<open>averageMeasurements\<close> is modelled a second time, on \<open>number\<close>: every
  operation gives the exact result when that is in the range of a double, \<^verbatim>\<open>Infinity\<close> with
  the sign of the result from \<open>2 ^ 1024 - 2 ^ 970\<close> in magnitude on (the least magnitude that
  rounds to infinity), and 0 up to \<open>1 / 2 ^ 1075\<close> in magnitude (the greatest that rounds to 0).
  The rounding of results inside the range is not part of the model. The snapshot values are
  finite, as \<^verbatim>\<open>Float32Array\<close> entries far inside the range of a double; the store of a bin
  into the \<^verbatim>\<open>Float32Array\<close> \<open>averaged\<close> keeps an infinity and a NaN as they are.
\<close>

definition overflow_bound :: real where
  "overflow_bound = 2 ^ 1024 - 2 ^ 970"

definition underflow_bound :: real where
  "underflow_bound = 1 / 2 ^ 1075"

definition double :: "real \<Rightarrow> number" where
  "double x = (if overflow_bound \<le> x then PosInf
           else if x \<le> - overflow_bound then NegInf
           else if \<bar>x\<bar> \<le> underflow_bound then Finite 0
           else Finite x)"

text \<open>
  The operators \<^verbatim>\<open>+\<close>, \<^verbatim>\<open>*\<close> and \<^verbatim>\<open>/\<close> (by the integer \<^verbatim>\<open>count\<close>) and the functions
  \<^verbatim>\<open>Math.sqrt\<close>, \<^verbatim>\<open>Math.log10\<close> and \<^verbatim>\<open>Math.pow(10, x)\<close> on these numbers, with the IEEE rules
  for infinities and NaN.
\<close>

fun n_add :: "number \<Rightarrow> number \<Rightarrow> number" where
  "n_add (Finite a) (Finite b) = double (a + b)"
| "n_add NaN y = NaN"
| "n_add x NaN = NaN"
| "n_add PosInf NegInf = NaN"
| "n_add NegInf PosInf = NaN"
| "n_add PosInf y = PosInf"
| "n_add x PosInf = PosInf"
| "n_add NegInf y = NegInf"
| "n_add x NegInf = NegInf"

definition signed_inf :: "real \<Rightarrow> number" where
  "signed_inf a = (if a = 0 then NaN else if a > 0 then PosInf else NegInf)"

fun n_mul :: "number \<Rightarrow> number \<Rightarrow> number" where
  "n_mul (Finite a) (Finite b) = double (a * b)"
| "n_mul NaN y = NaN"
| "n_mul x NaN = NaN"
| "n_mul (Finite a) PosInf = signed_inf a"
| "n_mul (Finite a) NegInf = signed_inf (- a)"
| "n_mul PosInf (Finite b) = signed_inf b"
| "n_mul NegInf (Finite b) = signed_inf (- b)"
| "n_mul PosInf PosInf = PosInf"
| "n_mul NegInf NegInf = PosInf"
| "n_mul PosInf NegInf = NegInf"
| "n_mul NegInf PosInf = NegInf"

fun n_div_count :: "number \<Rightarrow> nat \<Rightarrow> number" where
  "n_div_count (Finite a) count = (if count = 0 then signed_inf a else double (a / real count))"
| "n_div_count PosInf count = PosInf"
| "n_div_count NegInf count = NegInf"
| "n_div_count NaN count = NaN"

fun Math_sqrt :: "number \<Rightarrow> number" where
  "Math_sqrt (Finite a) = (if a < 0 then NaN else double (sqrt a))"
| "Math_sqrt PosInf = PosInf"
| "Math_sqrt NegInf = NaN"
| "Math_sqrt NaN = NaN"

fun Math_log10 :: "number \<Rightarrow> number" where
  "Math_log10 (Finite a) = (if a < 0 then NaN else if a = 0 then NegInf else double (log 10 a))"
| "Math_log10 PosInf = PosInf"
| "Math_log10 NegInf = NaN"
| "Math_log10 NaN = NaN"

definition Math_pow10 :: "real \<Rightarrow> number" where
  "Math_pow10 x = double (10 powr x)"

text \<open>\<^verbatim>\<open>x >= b\<close> for a number \<open>x\<close> and a finite bound \<open>b\<close>: false for NaN.\<close>

fun at_least :: "number \<Rightarrow> real \<Rightarrow> bool" where
  "at_least (Finite v) b = (b \<le> v)"
| "at_least PosInf b = True"
| "at_least NegInf b = False"
| "at_least NaN b = False"

text \<open>The loops of lines 556 to 576, as \<open>avg_inner\<close>, \<open>avg_bin\<close> and \<open>averageMeasurements\<close> above.\<close>

fun avg_inner_ieee :: "real \<Rightarrow> nat \<Rightarrow> real list list \<Rightarrow> number \<times> nat \<Rightarrow> number \<times> nat" where
  "avg_inner_ieee nf i [] acc = acc"
| "avg_inner_ieee nf i (measurement # rest) acc =
     (case acc of (sumv, count) \<Rightarrow>
        if i < length measurement \<and> measurement ! i > nf
        then (let linear = Math_pow10 (measurement ! i / 20)
              in avg_inner_ieee nf i rest (n_add sumv (n_mul linear linear), count + 1))
        else avg_inner_ieee nf i rest (sumv, count))"

definition avg_bin_ieee :: "real \<Rightarrow> real list list \<Rightarrow> nat \<Rightarrow> number" where
  "avg_bin_ieee nf ms i =
     (case avg_inner_ieee nf i ms (Finite 0, 0) of (sumv, count) \<Rightarrow>
        if count > 0
        then (let avgLinear = Math_sqrt (n_div_count sumv count)
              in n_mul (Finite 20) (Math_log10 avgLinear))
        else Finite nf)"

definition averageMeasurements_ieee :: "Calibration \<Rightarrow> error + number list" where
  "averageMeasurements_ieee c =
     (if length (measurementData c) = 0 then Inl (Error ''No measurement data'')
      else
        let len = length (hd (measurementData c));
            averaged = replicate len (Finite 0)
        in Inr (fold (\<lambda>i averaged.
                        averaged[i := avg_bin_ieee (noiseFloor c) (measurementData c) i])
                     [0..<len] averaged))"

text \<open>
  A number that is \<^verbatim>\<open>+Infinity\<close> or finite, at least \<open>lo\<close> and below the overflow bound.
\<close>

definition pos_num :: "real \<Rightarrow> number \<Rightarrow> bool" where
  "pos_num lo x \<longleftrightarrow> x = PosInf \<or> (\<exists>v. x = Finite v \<and> lo \<le> v \<and> v < overflow_bound)"

section \<open>Array updates in a counting loop\<close>

lemma fold_cond_update_upt:
  "n \<le> length xs \<Longrightarrow>
   fold (\<lambda>i a. if P i then a[i := f i] else a) [0..<n] xs
     = map (\<lambda>i. if P i then f i else xs ! i) [0..<n] @ drop n xs"
proof (induction n)
  case 0
  then show ?case by simp
next
  case (Suc n)
  let ?h = "\<lambda>i. if P i then f i else xs ! i"
  have n: "n < length xs" using Suc.prems by simp
  have split: "drop n xs = xs ! n # drop (Suc n) xs"
    using n by (simp add: Cons_nth_drop_Suc)
  have "(map ?h [0..<n] @ drop n xs)[n := f n] = map ?h [0..<n] @ (drop n xs)[0 := f n]"
    by (simp add: list_update_append)
  then have upd: "(map ?h [0..<n] @ drop n xs)[n := f n] = map ?h [0..<n] @ f n # drop (Suc n) xs"
    by (simp add: split)
  show ?case
  proof (cases "P n")
    case True
    then show ?thesis using Suc upd by simp
  next
    case False
    then show ?thesis using Suc split by simp
  qed
qed

lemma fold_update_upt:
  "n \<le> length xs \<Longrightarrow> fold (\<lambda>i a. a[i := f i]) [0..<n] xs = map f [0..<n] @ drop n xs"
  using fold_cond_update_upt [of n xs "\<lambda>i. True" f] by simp

section \<open>The retained snapshots of a session\<close>

lemma fold_measure_step:
  "0 \<le> d \<Longrightarrow>
   snd (fold measure_step frames (d, c)) =
     c\<lparr>measurementData := measurementData c @
          filter (\<lambda>s. exceeds (Math_max s) (noiseFloor c)) (drop (nat d) frames)\<rparr>"
proof (induction frames arbitrary: d c)
  case Nil
  then show ?case by simp
next
  case (Cons f frames)
  show ?case
  proof (cases "d > 0")
    case True
    then have "nat d = Suc (nat (d - 1))" by simp
    with True Cons.IH [of "d - 1" c] show ?thesis
      by (simp add: measure_step_def)
  next
    case False
    with Cons.prems have d: "d = 0" by simp
    show ?thesis
      using Cons.IH [of 0] by (simp add: d measure_step_def Let_def)
  qed
qed

lemma fold_max_ge: "a \<le> fold max xs (a::real)"
proof (induction xs arbitrary: a)
  case Nil
  then show ?case by simp
next
  case (Cons y ys)
  have "a \<le> max y a" by simp
  also have "\<dots> \<le> fold max ys (max y a)" by (rule Cons.IH)
  finally show ?case by simp
qed

lemma fold_max_mem: "fold max xs (a::real) \<in> insert a (set xs)"
  by (induction xs arbitrary: a) (auto simp: max_def)

lemma fold_max_upper: "x \<in> set xs \<Longrightarrow> x \<le> fold max xs (a::real)"
proof (induction xs arbitrary: a)
  case Nil
  then show ?case by simp
next
  case (Cons y ys)
  show ?case
  proof (cases "x \<in> set ys")
    case True
    then show ?thesis using Cons.IH by simp
  next
    case False
    with Cons.prems have "x = y" by simp
    then have "x \<le> max y a" by simp
    also have "\<dots> \<le> fold max ys (max y a)" by (rule fold_max_ge)
    finally show ?thesis by simp
  qed
qed

text \<open>The test on \<^verbatim>\<open>maxLevel\<close> holds exactly when some value of the frame is above the floor.\<close>

lemma exceeds_Math_max: "exceeds (Math_max xs) nf \<longleftrightarrow> (\<exists>x\<in>set xs. x > nf)"
proof (cases xs)
  case Nil
  then show ?thesis by (simp add: exceeds_def)
next
  case (Cons a as)
  have mem: "fold max as a \<in> set xs" using fold_max_mem [of as a] Cons by simp
  have up: "\<And>x. x \<in> set xs \<Longrightarrow> x \<le> fold max as a"
    using fold_max_upper [of _ as a] fold_max_ge [of a as] Cons by auto
  show ?thesis
  proof
    assume "exceeds (Math_max xs) nf"
    then have "fold max as a > nf" by (simp add: Cons exceeds_def)
    with mem show "\<exists>x\<in>set xs. x > nf" by blast
  next
    assume "\<exists>x\<in>set xs. x > nf"
    then obtain x where "x \<in> set xs" and "x > nf" by blast
    with up [of x] have "fold max as a > nf" by simp
    then show "exceeds (Math_max xs) nf" by (simp add: Cons exceeds_def)
  qed
qed

text \<open>
  C4. One session (\<^verbatim>\<open>measureWithMusic\<close>: the reset, then \<^verbatim>\<open>collectMeasurements\<close>) retains
  exactly the submitted frames that are not among the first ten and whose maximum is strictly
  above the noise floor, in their order; every other frame is dropped and the run goes on.
  The noise floor is the object's, which the constructor sets to -80.
\<close>

theorem measureWithMusic_retains:
  "measurementData (measureWithMusic frames c) =
     filter (\<lambda>snapshot. exceeds (Math_max snapshot) (noiseFloor c)) (drop 10 frames)"
  by (simp add: measureWithMusic_def collectMeasurements_def fold_measure_step)

section \<open>The averaged spectrum\<close>

lemma avg_inner_eq:
  "avg_inner nf i ms (s, n) =
     (s + (\<Sum>v\<leftarrow>contributors nf ms i. (10 powr (v / 20)) ^ 2), n + length (contributors nf ms i))"
  by (induction ms arbitrary: s n) (simp_all add: contributors_def Let_def power2_eq_square)

lemma avg_bin_eq: "avg_bin nf ms i = power_mean_bin nf ms i"
  by (simp add: avg_bin_def power_mean_bin_def avg_inner_eq Let_def)

lemma averageMeasurements_eq:
  "measurementData c \<noteq> [] \<Longrightarrow>
   averageMeasurements c =
     Inr (map (power_mean_bin (noiseFloor c) (measurementData c))
              [0..<length (hd (measurementData c))])"
  by (simp add: averageMeasurements_def Let_def fold_update_upt avg_bin_eq)

lemma contributors_above: "v \<in> set (contributors nf ms i) \<Longrightarrow> v > nf"
  by (auto simp: contributors_def)

lemma contributors_equal:
  assumes "\<forall>m\<in>set ms. i < length m \<and> m ! i = L" and "L > nf"
  shows "contributors nf ms i = replicate (length ms) L"
  using assms by (induction ms) (simp_all add: contributors_def)

lemma db_roundtrip: "20 * log 10 (sqrt ((10 powr (L / 20)) ^ 2)) = L"
proof -
  have "sqrt ((10 powr (L / 20)) ^ 2) = 10 powr (L / 20)" by simp
  then show ?thesis by simp
qed

lemma power_mean_bin_equal:
  assumes "ms \<noteq> []" and "\<forall>m\<in>set ms. i < length m \<and> m ! i = L" and "L > nf"
  shows "power_mean_bin nf ms i = L"
proof -
  have vs: "contributors nf ms i = replicate (length ms) L"
    using assms(2,3) by (rule contributors_equal)
  have n: "length ms \<noteq> 0" using assms(1) by simp
  have "(\<Sum>v\<leftarrow>replicate (length ms) L. (10 powr (v / 20)) ^ 2) / real (length ms)
          = (10 powr (L / 20)) ^ 2"
    using n by (simp add: sum_list_replicate)
  then show ?thesis
    using n by (simp add: power_mean_bin_def vs Let_def db_roundtrip del: real_sqrt_abs)
qed

lemma sum_list_lower:
  fixes g :: "real \<Rightarrow> real"
  assumes "\<forall>v\<in>set vs. t \<le> g v"
  shows "real (length vs) * t \<le> (\<Sum>v\<leftarrow>vs. g v)"
  using assms by (induction vs) (simp_all add: algebra_simps)

lemma power_mean_bin_ge: "nf \<le> power_mean_bin nf ms i"
proof (cases "contributors nf ms i = []")
  case True
  then show ?thesis by (simp add: power_mean_bin_def)
next
  case False
  let ?vs = "contributors nf ms i"
  let ?S = "\<Sum>v\<leftarrow>?vs. (10 powr (v / 20)) ^ 2"
  let ?t = "(10 powr (nf / 20)) ^ 2"
  have n: "0 < real (length ?vs)" using False by simp
  have "\<forall>v\<in>set ?vs. ?t \<le> (10 powr (v / 20)) ^ 2"
  proof
    fix v assume "v \<in> set ?vs"
    then have "nf < v" by (rule contributors_above)
    then have "10 powr (nf / 20) \<le> (10::real) powr (v / 20)" by simp
    then show "?t \<le> (10 powr (v / 20)) ^ 2" by (simp add: power_mono)
  qed
  then have "real (length ?vs) * ?t \<le> ?S" by (rule sum_list_lower)
  then have "?t \<le> ?S / real (length ?vs)"
    using n by (simp add: pos_le_divide_eq mult.commute)
  then have le: "10 powr (nf / 20) \<le> sqrt (?S / real (length ?vs))"
    by (rule real_le_rsqrt)
  have p: "0 < (10::real) powr (nf / 20)" by simp
  with le have pos: "0 < sqrt (?S / real (length ?vs))" by linarith
  have "log 10 (10 powr (nf / 20)) \<le> log 10 (sqrt (?S / real (length ?vs)))"
    using le p pos by (subst log_le_cancel_iff) simp_all
  then have "nf / 20 \<le> log 10 (sqrt (?S / real (length ?vs)))" by simp
  then show ?thesis
    using False by (simp add: power_mean_bin_def Let_def)
qed

text \<open>
  C1. For a non-empty list of snapshots \<^verbatim>\<open>averageMeasurements\<close> returns, at every bin of the
  first snapshot, the value \<open>20 * log 10 (sqrt (S / n))\<close>, where \<open>S\<close> is the sum of the squares of
  \<open>10 powr (v / 20)\<close> over the values \<open>v\<close> of the snapshots at that bin that are strictly above
  the noise floor and \<open>n\<close> is their number; when \<open>n\<close> is 0 the bin is the noise floor itself.
\<close>

theorem averageMeasurements_power_mean:
  assumes "measurementData c \<noteq> []"
  shows "averageMeasurements c =
           Inr (map (power_mean_bin (noiseFloor c) (measurementData c))
                    [0..<length (hd (measurementData c))])"
  using assms by (rule averageMeasurements_eq)

theorem averageMeasurements_power_mean_witness:
  "measurementData (calibration_with [[- 20, - 90], [- 20, - 100]]) \<noteq> [] \<and>
   averageMeasurements (calibration_with [[- 20, - 90], [- 20, - 100]]) = Inr [- 20, - 80]"
proof -
  let ?ms = "[[- 20, - 90], [- 20, - 100 :: real]]"
  have ne: "measurementData (calibration_with ?ms) \<noteq> []"
    by (simp add: calibration_with_def)
  have b0: "power_mean_bin (- 80) ?ms 0 = - 20"
    by (rule power_mean_bin_equal) simp_all
  have b1: "power_mean_bin (- 80) ?ms 1 = - 80"
    by (simp add: power_mean_bin_def contributors_def)
  have up: "[0..<2] = [0, 1]" by (simp add: upt_rec)
  show ?thesis
    using averageMeasurements_power_mean [OF ne] b0 b1
    by (simp add: calibration_with_def new_Calibration_def up)
qed

text \<open>
  C8. When every snapshot of a non-empty list has the same level \<open>L\<close> at a bin, and \<open>L\<close> is
  strictly above the noise floor, the averaged spectrum has exactly \<open>L\<close> at that bin (in exact
  arithmetic).
\<close>

theorem averageMeasurements_equal_levels:
  assumes "measurementData c \<noteq> []"
    and "\<forall>m\<in>set (measurementData c). i < length m \<and> m ! i = L"
    and "noiseFloor c < L"
  shows "\<exists>averaged. averageMeasurements c = Inr averaged \<and> averaged ! i = L"
proof -
  have "i < length (hd (measurementData c))"
    using assms(1,2) by (cases "measurementData c") simp_all
  moreover have "power_mean_bin (noiseFloor c) (measurementData c) i = L"
    using assms by (rule power_mean_bin_equal)
  ultimately show ?thesis
    using assms(1) by (simp add: averageMeasurements_eq)
qed

theorem averageMeasurements_equal_levels_witness:
  "measurementData (calibration_with [[- 30, - 12], [- 40, - 12], [- 50, - 12]]) \<noteq> [] \<and>
   noiseFloor (calibration_with [[- 30, - 12], [- 40, - 12], [- 50, - 12]]) < - 12 \<and>
   (\<exists>averaged. averageMeasurements (calibration_with [[- 30, - 12], [- 40, - 12], [- 50, - 12]])
        = Inr averaged \<and> averaged ! 1 = - 12)"
proof -
  let ?c = "calibration_with [[- 30, - 12], [- 40, - 12], [- 50, - 12]]"
  have h1: "measurementData ?c \<noteq> []" by (simp add: calibration_with_def)
  have h2: "\<forall>m\<in>set (measurementData ?c). 1 < length m \<and> m ! 1 = - 12"
    by (simp add: calibration_with_def)
  have h3: "noiseFloor ?c < - 12" by (simp add: calibration_with_def new_Calibration_def)
  show ?thesis
    using averageMeasurements_equal_levels [OF h1 h2 h3] h1 h3 by simp
qed

text \<open>
  In exact arithmetic every bin of the averaged spectrum is at least the noise floor: a bin
  with a contributor is a power mean of values above the floor (the argument of the logarithm
  is positive), a bin with none is the floor.
\<close>

lemma averageMeasurements_exact_ge_floor:
  assumes "measurementData c \<noteq> []"
  shows "\<exists>averaged. averageMeasurements c = Inr averaged \<and>
           length averaged = length (hd (measurementData c)) \<and>
           (\<forall>v\<in>set averaged. noiseFloor c \<le> v)"
  using assms by (auto simp: averageMeasurements_eq power_mean_bin_ge)

section \<open>An empty session\<close>

text \<open>
  C6. With no retained snapshot \<^verbatim>\<open>calculateCorrections\<close> throws its error whatever the
  target curve and the smoothing are: the result is the error and never a vector.
\<close>

theorem calculateCorrections_empty:
  "calculateCorrections (c\<lparr>measurementData := []\<rparr>) targetCurveName smoothing
     = Inl (Error ''No valid measurement data collected'')"
  by (simp add: calculateCorrections_def)

section \<open>The band response\<close>

lemma extract_loop_eq:
  "extract_loop fftData nf bin endBin (s, n, rs) =
     (s + (\<Sum>b\<leftarrow>window_bins fftData nf bin endBin. fftData ! nat b),
      n + length (window_bins fftData nf bin endBin),
      rs @ filter (\<lambda>b. 0 \<le> b \<and> b < int (length fftData)) [bin..endBin])"
proof (induction fftData nf bin endBin "(s, n, rs)" arbitrary: s n rs rule: extract_loop.induct)
  case (1 fftData nf bin endBin)
  show ?case
  proof (cases "bin \<le> endBin")
    case False
    then show ?thesis by (simp add: window_bins_def)
  next
    case le: True
    then have up: "[bin..endBin] = bin # [bin + 1..endBin]" by (simp add: upto_rec1)
    show ?thesis
    proof (cases "bin < int (length fftData)")
      case True
      show ?thesis
        apply (subst extract_loop.simps)
        using le True "1.hyps"
        by (simp add: window_bins_def up del: extract_loop.simps)
    next
      case False
      then have "filter (\<lambda>b. 0 \<le> b \<and> b < int (length fftData)) [bin..endBin] = []"
        by (auto simp: filter_empty_conv)
      moreover have "window_bins fftData nf bin endBin = []"
        using False by (auto simp: window_bins_def filter_empty_conv)
      ultimately show ?thesis using False by simp
    qed
  qed
qed


lemma band_scan_eq:
  "band_window c fftData freq = (startBin, endBin) \<Longrightarrow>
   band_scan c fftData freq =
     ((\<Sum>b\<leftarrow>window_bins fftData (noiseFloor c) startBin endBin. fftData ! nat b),
      length (window_bins fftData (noiseFloor c) startBin endBin),
      filter (\<lambda>b. 0 \<le> b \<and> b < int (length fftData)) [startBin..endBin])"
  by (simp add: band_scan_def extract_loop_eq del: extract_loop.simps)

lemma band_response_eq:
  "band_window c fftData freq = (startBin, endBin) \<Longrightarrow>
   band_response c fftData freq =
     (let bins = window_bins fftData (noiseFloor c) startBin endBin
      in if bins = [] then noiseFloor c
         else (\<Sum>b\<leftarrow>bins. fftData ! nat b) / real (length bins))"
  by (simp add: band_response_def band_scan_eq Let_def)

lemma band_reads_eq:
  "band_window c fftData freq = (startBin, endBin) \<Longrightarrow>
   band_reads c fftData freq = filter (\<lambda>b. 0 \<le> b \<and> b < int (length fftData)) [startBin..endBin]"
  by (simp add: band_reads_def band_scan_eq)

text \<open>
  C10. \<^verbatim>\<open>extractFrequencyResponse\<close> returns one value per target frequency, for every
  frequency and every spectrum (the loop is a total function). For the band \<open>k\<close> with the
  window from \<open>startBin\<close> to \<open>endBin\<close>: every index at which the spectrum is read lies in
  \<open>[0, length)\<close>; when no bin of the window inside the array is strictly above the noise floor
  the band is the noise floor; in particular so when the whole window lies past the end of the
  array.
\<close>

theorem extractFrequencyResponse_in_range:
  assumes "k < length fs" and "band_window c fftData (fs ! k) = (startBin, endBin)"
  shows "length (extractFrequencyResponse c fftData fs) = length fs \<and>
         (\<forall>r\<in>set (band_reads c fftData (fs ! k)). 0 \<le> r \<and> r < int (length fftData)) \<and>
         ((\<forall>b. startBin \<le> b \<and> b \<le> endBin \<and> 0 \<le> b \<and> b < int (length fftData)
                \<longrightarrow> fftData ! nat b \<le> noiseFloor c)
            \<longrightarrow> extractFrequencyResponse c fftData fs ! k = noiseFloor c) \<and>
         (int (length fftData) \<le> startBin
            \<longrightarrow> extractFrequencyResponse c fftData fs ! k = noiseFloor c)"
proof -
  have len: "length (extractFrequencyResponse c fftData fs) = length fs"
    by (simp add: extractFrequencyResponse_def)
  have nth: "extractFrequencyResponse c fftData fs ! k = band_response c fftData (fs ! k)"
    using assms(1) by (simp add: extractFrequencyResponse_def)
  have reads: "\<forall>r\<in>set (band_reads c fftData (fs ! k)). 0 \<le> r \<and> r < int (length fftData)"
    by (simp add: band_reads_eq [OF assms(2)])
  have none: "band_response c fftData (fs ! k) = noiseFloor c"
    if "\<forall>b. startBin \<le> b \<and> b \<le> endBin \<and> 0 \<le> b \<and> b < int (length fftData)
              \<longrightarrow> fftData ! nat b \<le> noiseFloor c"
  proof -
    have "window_bins fftData (noiseFloor c) startBin endBin = []"
      using that by (auto simp: window_bins_def filter_empty_conv)
    then show ?thesis by (simp add: band_response_eq [OF assms(2)])
  qed
  have above: "band_response c fftData (fs ! k) = noiseFloor c"
    if "int (length fftData) \<le> startBin"
    using that by (intro none) auto
  show ?thesis using len nth reads none above by simp
qed


theorem extractFrequencyResponse_in_range_witness:
  "1 < length [20, 16000, 50000 :: real] \<and>
   band_window (calibration_with []) [- 20, - 90, - 85, - 90] ([20, 16000, 50000] ! 1) = (1, 4) \<and>
   band_window (calibration_with []) [- 20, - 90, - 85, - 90] ([20, 16000, 50000] ! 2) = (7, 10) \<and>
   extractFrequencyResponse (calibration_with []) [- 20, - 90, - 85, - 90] [20, 16000, 50000] ! 1 = - 80 \<and>
   extractFrequencyResponse (calibration_with []) [- 20, - 90, - 85, - 90] [20, 16000, 50000] ! 2 = - 80 \<and>
   list_all (\<lambda>r. 0 \<le> r \<and> r < 4)
     (band_reads (calibration_with []) [- 20, - 90, - 85, - 90] ([20, 16000, 50000] ! 1))"
proof -
  let ?c = "calibration_with []"
  let ?fft = "[- 20, - 90, - 85, - 90 :: real]"
  let ?fs = "[20, 16000, 50000 :: real]"
  have nf: "noiseFloor ?c = - 80" by (simp add: calibration_with_def new_Calibration_def)
  have k1: "1 < length ?fs" and k2: "2 < length ?fs" by simp_all
  have w1: "band_window ?c ?fft (?fs ! 1) = (1, 4)"
    by (simp add: band_window_def calibration_with_def new_Calibration_def
        new_AudioProcessor_def floor_eq_iff ceiling_eq_iff)
  have w2: "band_window ?c ?fft (?fs ! 2) = (7, 10)"
    by (simp add: band_window_def calibration_with_def new_Calibration_def
        new_AudioProcessor_def floor_eq_iff ceiling_eq_iff)
  have quiet: "\<forall>b. 1 \<le> b \<and> b \<le> 4 \<and> 0 \<le> b \<and> b < int (length ?fft)
                   \<longrightarrow> ?fft ! nat b \<le> noiseFloor ?c"
  proof (intro allI impI)
    fix b :: int
    assume "1 \<le> b \<and> b \<le> 4 \<and> 0 \<le> b \<and> b < int (length ?fft)"
    then have "b = 1 \<or> b = 2 \<or> b = 3" by auto
    then show "?fft ! nat b \<le> noiseFloor ?c" by (auto simp: nf)
  qed
  have beyond: "int (length ?fft) \<le> 7" by simp
  show ?thesis
    using extractFrequencyResponse_in_range [OF k1 w1] extractFrequencyResponse_in_range [OF k2 w2]
      quiet beyond w1 w2 nf
    by (simp add: list_all_iff)
qed

section \<open>Fractional-octave windows on the band grid\<close>

lemma fold_smooth_step:
  "fold (smooth_step freqs data nf lo hi) js (s, n) =
     (s + (\<Sum>j\<leftarrow>filter (\<lambda>j. lo \<le> freqs ! j \<and> freqs ! j \<le> hi \<and> j < length data \<and> data ! j > nf) js.
              data ! j),
      n + length (filter (\<lambda>j. lo \<le> freqs ! j \<and> freqs ! j \<le> hi \<and> j < length data \<and> data ! j > nf) js))"
  by (induction js arbitrary: s n) (simp_all add: smooth_step_def)

lemma smooth_band_eq:
  "smooth_band c data q i smoothed =
     (if i < length (getFrequencies (audioProcessor c)) \<and>
         window_values (getFrequencies (audioProcessor c)) data (noiseFloor c)
           (getFrequencies (audioProcessor c) ! i * 2 powr (- q / 2))
           (getFrequencies (audioProcessor c) ! i * 2 powr (q / 2)) \<noteq> []
      then smoothed[i := window_mean c data i
           (getFrequencies (audioProcessor c) ! i * 2 powr (- q / 2))
           (getFrequencies (audioProcessor c) ! i * 2 powr (q / 2))]
      else smoothed)"
  by (simp add: smooth_band_def Let_def fold_smooth_step window_values_def window_mean_def comp_def)

lemma applySmoothing_eq:
  assumes "octaveFraction smoothingType = Some q"
  shows "applySmoothing c data smoothingType =
     map (\<lambda>i. if i < length (getFrequencies (audioProcessor c))
               then window_mean c data i
                 (getFrequencies (audioProcessor c) ! i * 2 powr (- q / 2))
                 (getFrequencies (audioProcessor c) ! i * 2 powr (q / 2))
               else data ! i)
         [0..<length data]"
proof -
  let ?fs = "getFrequencies (audioProcessor c)"
  let ?q = "q"
  let ?lo = "\<lambda>i. ?fs ! i * 2 powr (- ?q / 2)"
  let ?hi = "\<lambda>i. ?fs ! i * 2 powr (?q / 2)"
  let ?P = "\<lambda>i. i < length ?fs \<and> window_values ?fs data (noiseFloor c) (?lo i) (?hi i) \<noteq> []"
  have "smooth_band c data ?q =
          (\<lambda>i a. if ?P i then a[i := window_mean c data i (?lo i) (?hi i)] else a)"
    by (intro ext) (simp add: smooth_band_eq)
  then have "applySmoothing c data smoothingType =
      map (\<lambda>i. if ?P i then window_mean c data i (?lo i) (?hi i) else data ! i) [0..<length data]"
    using assms by (simp add: applySmoothing_def fold_cond_update_upt)
  also have "\<dots> = map (\<lambda>i. if i < length ?fs then window_mean c data i (?lo i) (?hi i) else data ! i)
                      [0..<length data]"
    by (rule map_cong) (auto simp: window_mean_def Let_def)
  finally show ?thesis .
qed

lemma octaveFraction_cases: "octaveFraction s = Some q \<Longrightarrow> q \<in> {1 / 3, 1 / 6, 1 / 12}"
  by (auto simp: octaveFraction_def split: option.splits if_splits)

lemma applySmoothing_not_a_number:
  "octaveFraction smoothingType = None \<Longrightarrow> applySmoothing c data smoothingType = data"
proof -
  have "fold (\<lambda>i smoothed. smoothed) js xs = xs" for js :: "nat list" and xs :: "real list"
    by (induction js) simp_all
  then show "octaveFraction smoothingType = None \<Longrightarrow> applySmoothing c data smoothingType = data"
    by (simp add: applySmoothing_def)
qed

lemma length_applySmoothing: "length (applySmoothing c data smoothingType) = length data"
  by (cases "octaveFraction smoothingType")
     (simp_all add: applySmoothing_not_a_number applySmoothing_eq)

lemma two_powr_sixth: "2 powr (1 / 6) < (5 / 4 :: real)"
proof (rule ccontr)
  assume "\<not> 2 powr (1 / 6) < (5 / 4 :: real)"
  then have "(5 / 4 :: real) \<le> 2 powr (1 / 6)" by simp
  then have "(5 / 4 :: real) ^ 6 \<le> (2 powr (1 / 6)) ^ 6" by (intro power_mono) simp_all
  also have "(2 powr (1 / 6)) ^ 6 = (2::real)" by (simp add: powr_power)
  finally show False by (simp add: power_def)
qed

lemma window_factor:
  assumes "q \<in> {1 / 3, 1 / 6, 1 / 12 :: real}"
  shows "1 < 2 powr (q / 2)" and "2 powr (q / 2) < (5 / 4 :: real)"
    and "2 powr (- q / 2) = 1 / 2 powr (q / 2)"
proof -
  have q: "0 < q" "q / 2 \<le> 1 / 6" using assms by auto
  then show "1 < 2 powr (q / 2)" by simp
  have "2 powr (q / 2) \<le> (2::real) powr (1 / 6)" using q by (intro powr_mono) simp_all
  then show "2 powr (q / 2) < (5 / 4 :: real)" using two_powr_sixth by linarith
  have "- q / 2 = - (q / 2)" by simp
  then show "2 powr (- q / 2) = 1 / 2 powr (q / 2)"
    by (simp only: powr_minus_divide)
qed

lemma length_iso_bands: "length iso_bands = 31"
  by (simp add: iso_bands_def new_AudioProcessor_def)

lemma frequencies_new: "frequencies (new_AudioProcessor sr) = iso_bands"
  by (simp add: iso_bands_def new_AudioProcessor_def)

lemma iso_adjacent: "list_all2 (\<lambda>a b. 0 < a \<and> 5 / 4 * a \<le> b) (butlast iso_bands) (tl iso_bands)"
  by (simp add: iso_bands_def new_AudioProcessor_def)

lemma iso_step:
  assumes "k < 30"
  shows "0 < iso_bands ! k \<and> 5 / 4 * iso_bands ! k \<le> iso_bands ! Suc k"
proof -
  have "k < length (butlast iso_bands)" using assms by (simp add: length_iso_bands)
  from list_all2_nthD [OF iso_adjacent this]
  show ?thesis using assms by (simp add: nth_butlast nth_tl length_iso_bands)
qed

lemma iso_pos: "i < 31 \<Longrightarrow> 0 < iso_bands ! i"
proof -
  assume i: "i < 31"
  have "\<forall>x\<in>set iso_bands. 0 < x" by (simp add: iso_bands_def new_AudioProcessor_def)
  moreover have "iso_bands ! i \<in> set iso_bands" using i by (simp add: length_iso_bands)
  ultimately show ?thesis by blast
qed

lemma iso_ratio: "i < j \<Longrightarrow> j < 31 \<Longrightarrow> 5 / 4 * iso_bands ! i \<le> iso_bands ! j"
proof (induction j)
  case 0
  then show ?case by simp
next
  case (Suc j)
  have st: "0 < iso_bands ! j \<and> 5 / 4 * iso_bands ! j \<le> iso_bands ! Suc j"
    using Suc.prems by (intro iso_step) simp
  show ?case
  proof (cases "i = j")
    case True
    then show ?thesis using st by simp
  next
    case False
    then have "5 / 4 * iso_bands ! i \<le> iso_bands ! j" using Suc by simp
    then show ?thesis using st by linarith
  qed
qed

lemma window_self:
  assumes q: "q \<in> {1 / 3, 1 / 6, 1 / 12 :: real}" and i: "i < 31" and j: "j < 31"
  shows "(iso_bands ! i * 2 powr (- q / 2) \<le> iso_bands ! j \<and>
          iso_bands ! j \<le> iso_bands ! i * 2 powr (q / 2)) \<longleftrightarrow> j = i"
proof -
  define p where "p = (2::real) powr (q / 2)"
  have p1: "1 < p" and p2: "p < 5 / 4" and inv: "2 powr (- q / 2) = 1 / p"
    using window_factor [OF q] by (simp_all add: p_def)
  have fi: "0 < iso_bands ! i" and fj: "0 < iso_bands ! j" using i j by (simp_all add: iso_pos)
  have up: "\<And>x. 0 < x \<Longrightarrow> x * p < 5 / 4 * x"
    using p2 by (simp add: mult.commute)
  have lo_eq: "iso_bands ! i * (1 / p) \<le> iso_bands ! j \<longleftrightarrow> iso_bands ! i \<le> iso_bands ! j * p"
    using p1 by (simp add: pos_divide_le_eq)
  have main: "(iso_bands ! i * (1 / p) \<le> iso_bands ! j \<and> iso_bands ! j \<le> iso_bands ! i * p)
                \<longleftrightarrow> j = i"
  proof -
    consider "j = i" | "i < j" | "j < i" by linarith
    then show ?thesis
    proof cases
      case 1
      have "iso_bands ! i \<le> iso_bands ! i * p" using fi p1 by simp
      then show ?thesis using 1 lo_eq by simp
    next
      case 2
      have "iso_bands ! i * p < 5 / 4 * iso_bands ! i" using fi by (rule up)
      also have "\<dots> \<le> iso_bands ! j" using 2 j by (rule iso_ratio)
      finally show ?thesis using 2 by simp
    next
      case 3
      have "iso_bands ! j * p < 5 / 4 * iso_bands ! j" using fj by (rule up)
      also have "\<dots> \<le> iso_bands ! i" using 3 i by (rule iso_ratio)
      finally show ?thesis using 3 lo_eq by simp
    qed
  qed
  show ?thesis unfolding inv p_def [symmetric] by (rule main)
qed

lemma filter_single:
  "filter (\<lambda>j. j = i \<and> Q j) [0..<n] = (if i < n \<and> Q i then [i] else [])"
  by (induction n) auto

lemma window_values_iso:
  assumes q: "q \<in> {1 / 3, 1 / 6, 1 / 12 :: real}" and i: "i < 31" and len: "length data = 31"
  shows "window_values iso_bands data nf (iso_bands ! i * 2 powr (- q / 2))
           (iso_bands ! i * 2 powr (q / 2)) = (if data ! i > nf then [data ! i] else [])"
proof -
  have "filter (\<lambda>j. iso_bands ! i * 2 powr (- q / 2) \<le> iso_bands ! j \<and>
                    iso_bands ! j \<le> iso_bands ! i * 2 powr (q / 2) \<and>
                    j < length data \<and> data ! j > nf) [0..<31]
        = filter (\<lambda>j. j = i \<and> data ! j > nf) [0..<31]"
    using window_self [OF q i] len by (intro filter_cong) auto
  then show ?thesis
    using i by (simp add: window_values_def length_iso_bands filter_single)
qed

lemma applySmoothing_iso:
  assumes "getFrequencies (audioProcessor c) = iso_bands" and "length data = 31"
  shows "applySmoothing c data smoothingType = data"
proof (cases "octaveFraction smoothingType")
  case None
  then show ?thesis by (rule applySmoothing_not_a_number)
next
  case (Some q)
  note eq = applySmoothing_eq [OF Some]
  show ?thesis
  proof (rule nth_equalityI)
    show "length (applySmoothing c data smoothingType) = length data"
      by (rule length_applySmoothing)
  next
    fix i assume "i < length (applySmoothing c data smoothingType)"
    then have i: "i < 31" using assms(2) by (simp add: length_applySmoothing)
    show "applySmoothing c data smoothingType ! i = data ! i"
      using i assms window_values_iso [OF octaveFraction_cases [OF Some] i assms(2), of "noiseFloor c"]
      by (simp add: eq length_iso_bands window_mean_def Let_def)
  qed
qed

lemma getFrequencies_calibration_with:
  "getFrequencies (audioProcessor (calibration_with ms)) = iso_bands"
  by (simp add: calibration_with_def new_Calibration_def getFrequencies_def frequencies_new)

lemma noiseFloor_calibration_with: "noiseFloor (calibration_with ms) = - 80"
  by (simp add: calibration_with_def new_Calibration_def)

text \<open>
  C5 (amended). For every response vector of 31 entries on the band grid, every band \<open>i\<close> with
  centre frequency \<open>f\<close>, and each smoothing fraction \<open>q\<close> of 1/3, 1/6 and 1/12 (selected by its name),
  \<^verbatim>\<open>applySmoothing\<close> sets band \<open>i\<close> to the mean of exactly those input values strictly above the
  noise floor at the bands whose centre frequency lies in
  \<open>[f * 2 powr (- q / 2), f * 2 powr (q / 2)]\<close>, and leaves the band at its input value when the
  window holds no such value. The upper bound has no further factor 2.
\<close>

theorem applySmoothing_window_mean:
  assumes "length data = 31" and "i < 31"
    and "getFrequencies (audioProcessor c) = iso_bands"
    and "(smoothingType, q) \<in> {(''1/3'', 1 / 3), (''1/6'', 1 / 6), (''1/12'', 1 / 12)}"
  shows "length (applySmoothing c data smoothingType) = 31 \<and>
         applySmoothing c data smoothingType ! i =
           window_mean c data i
             (iso_bands ! i * 2 powr (- q / 2)) (iso_bands ! i * 2 powr (q / 2))"
proof -
  have q: "octaveFraction smoothingType = Some q"
    using assms(4) by (auto simp: octaveFraction_def)
  show ?thesis
    using assms(1-3) by (simp add: applySmoothing_eq [OF q] length_iso_bands)
qed

lemma claimed_window_bounds:
  "20 * 2 powr (- (1 / 3) / 2) \<le> (20::real)"
  "(40::real) < 20 * 2 * 2 powr ((1 / 3) / 2)"
  "20 * 2 * 2 powr ((1 / 3) / 2) < (50::real)"
proof -
  define p where "p = (2::real) powr ((1 / 3) / 2)"
  have q: "(1 / 3 :: real) \<in> {1 / 3, 1 / 6, 1 / 12}" by simp
  have p1: "1 < p" and p2: "p < 5 / 4" and inv: "2 powr (- (1 / 3) / 2) = 1 / p"
    unfolding p_def using window_factor [OF q] by blast+
  have "20 * (1 / p) \<le> 20" using p1 by (simp add: pos_divide_le_eq)
  then show "20 * 2 powr (- (1 / 3) / 2) \<le> (20::real)" unfolding inv .
  have "40 < 20 * 2 * p" using p1 by simp
  then show "(40::real) < 20 * 2 * 2 powr ((1 / 3) / 2)" unfolding p_def .
  have "20 * 2 * p < 50" using p2 by simp
  then show "20 * 2 * 2 powr ((1 / 3) / 2) < (50::real)" unfolding p_def .
qed

lemma claimed_window_values:
  assumes "lo \<le> (20::real)" and "40 < hi" and "hi < (50::real)"
  shows "window_values iso_bands spike_response (- 80) lo hi = [0, 10, 0, 0]"
  using assms
  by (simp add: window_values_def iso_bands_def new_AudioProcessor_def spike_response_def upt_rec)

text \<open>
  With the upper bound \<open>f * 2 * 2 powr (q / 2)\<close> the window of the 20 Hz band would reach the
  bands at 25, 31.5 and 40 Hz, and the raised band at 25 Hz would lift the mean to 2.5; the
  code leaves the band at 0.
\<close>

theorem applySmoothing_claimed_window_counterexample:
  "applySmoothing (calibration_with []) spike_response ''1/3'' ! 0
     \<noteq> window_mean (calibration_with []) spike_response 0
          (getFrequencies (audioProcessor (calibration_with [])) ! 0 * 2 powr (- (1 / 3) / 2))
          (getFrequencies (audioProcessor (calibration_with [])) ! 0 * 2 * 2 powr ((1 / 3) / 2))"
proof -
  have len: "length spike_response = 31" by (simp add: spike_response_def)
  have "applySmoothing (calibration_with []) spike_response ''1/3'' = spike_response"
    using getFrequencies_calibration_with len by (rule applySmoothing_iso)
  then have lhs: "applySmoothing (calibration_with []) spike_response ''1/3'' ! 0 = 0"
    by (simp add: spike_response_def)
  have f0: "iso_bands ! 0 = 20" by (simp add: iso_bands_def new_AudioProcessor_def)
  have "window_mean (calibration_with []) spike_response 0
          (20 * 2 powr (- (1 / 3) / 2)) (20 * 2 * 2 powr ((1 / 3) / 2)) = 5 / 2"
    unfolding window_mean_def getFrequencies_calibration_with noiseFloor_calibration_with
      claimed_window_values [OF claimed_window_bounds]
    by simp
  then show ?thesis
    unfolding lhs getFrequencies_calibration_with f0 by simp
qed

theorem applySmoothing_window_mean_witness:
  "length spike_response = 31 \<and>
   getFrequencies (audioProcessor (calibration_with [])) = iso_bands \<and>
   (''1/6'', 1 / 6) \<in> {(''1/3'', 1 / 3), (''1/6'', 1 / 6), (''1/12'', 1 / 12 :: real)} \<and>
   applySmoothing (calibration_with []) spike_response ''1/6'' ! 1 =
     window_mean (calibration_with []) spike_response 1
       (iso_bands ! 1 * 2 powr (- (1 / 6) / 2)) (iso_bands ! 1 * 2 powr ((1 / 6) / 2)) \<and>
   applySmoothing (calibration_with []) spike_response ''1/6'' ! 1 = 10"
proof -
  have h1: "length spike_response = 31" by (simp add: spike_response_def)
  have h2: "(1::nat) < 31" by simp
  note h3 = getFrequencies_calibration_with [of "[]"]
  have h4: "(''1/6'', 1 / 6) \<in> {(''1/3'', 1 / 3), (''1/6'', 1 / 6), (''1/12'', 1 / 12 :: real)}"
    by simp
  have "applySmoothing (calibration_with []) spike_response ''1/6'' = spike_response"
    using h3 h1 by (rule applySmoothing_iso)
  then have v: "applySmoothing (calibration_with []) spike_response ''1/6'' ! 1 = 10"
    by (simp add: spike_response_def)
  show ?thesis
    using applySmoothing_window_mean [OF h1 h2 h3 h4] h1 h3 v by simp
qed

section \<open>The correction vector\<close>

lemma Math_round_half: "multiple_of_half (Math_round x / 2)"
  by (simp add: multiple_of_half_def Math_round_def)

lemma Math_round_bounds:
  assumes "- 20 \<le> x" and "x \<le> 20"
  shows "- 10 \<le> Math_round x / 2" and "Math_round x / 2 \<le> 10"
proof -
  have "(- 20 :: int) \<le> \<lfloor>x + 1 / 2\<rfloor>" using assms(1) by (simp add: le_floor_iff)
  then have "(- 20 :: real) \<le> of_int \<lfloor>x + 1 / 2\<rfloor>" by linarith
  then show "- 10 \<le> Math_round x / 2" by (simp add: Math_round_def)
  have "\<lfloor>x + 1 / 2\<rfloor> \<le> (20 :: int)" using assms(2) by (simp add: floor_le_iff)
  then have "of_int \<lfloor>x + 1 / 2\<rfloor> \<le> (20 :: real)" by linarith
  then show "Math_round x / 2 \<le> 10" by (simp add: Math_round_def)
qed

lemma in_range_round: "- 10 \<le> y \<Longrightarrow> y \<le> 10 \<Longrightarrow> in_range (Math_round (y * 2) / 2)"
  using Math_round_bounds [of "y * 2"] by (simp add: in_range_def Math_round_half)

lemma band_correction_in_range: "in_range (band_correction target measured)"
  unfolding band_correction_def Let_def by (rule in_range_round) simp_all

lemma band_correction_ten:
  assumes "measured + 100 / 7 \<le> target"
  shows "band_correction target measured = 10"
proof -
  have "10 \<le> (target - measured) * 0.7" using assms by simp
  then have "max (- 10) (min 10 ((target - measured) * 0.7)) = 10" by simp
  then show ?thesis by (simp add: band_correction_def Let_def Math_round_def)
qed

lemma fold_update_from:
  "n \<le> length xs \<Longrightarrow>
   fold (\<lambda>i a. a[i := f i]) [m..<n] xs
     = map (\<lambda>k. if m \<le> k \<and> k < n then f k else xs ! k) [0..<length xs]"
proof (induction n)
  case 0
  then show ?case by (simp add: map_nth)
next
  case (Suc n)
  show ?case
  proof (cases "m \<le> n")
    case False
    then have "map (\<lambda>k. if m \<le> k \<and> k < Suc n then f k else xs ! k) [0..<length xs]
                 = map (\<lambda>k. xs ! k) [0..<length xs]"
      by (intro map_cong) auto
    then show ?thesis using False by (simp add: map_nth)
  next
    case True
    then have "fold (\<lambda>i a. a[i := f i]) [m..<Suc n] xs
        = (map (\<lambda>k. if m \<le> k \<and> k < n then f k else xs ! k) [0..<length xs])[n := f n]"
      using Suc by simp
    also have "\<dots> = map (\<lambda>k. if m \<le> k \<and> k < Suc n then f k else xs ! k) [0..<length xs]"
      using Suc.prems True by (intro nth_equalityI) (auto simp: nth_list_update)
    finally show ?thesis .
  qed
qed

lemma smoothCorrections_eq:
  "smoothCorrections cs =
     map (\<lambda>i. if 1 \<le> i \<and> i < length cs - 1
               then Math_round (((cs ! (i - 1) + cs ! i + cs ! (i + 1)) / 3) * 2) / 2
               else cs ! i) [0..<length cs]"
  unfolding smoothCorrections_def by (rule fold_update_from) simp

lemma smoothCorrections_in_range:
  assumes "\<forall>x\<in>set cs. in_range x"
  shows "\<forall>x\<in>set (smoothCorrections cs). in_range x"
proof -
  have r: "\<And>k. k < length cs \<Longrightarrow> - 10 \<le> cs ! k \<and> cs ! k \<le> 10"
    using assms by (simp add: in_range_def)
  have "in_range (Math_round (((cs ! (i - 1) + cs ! i + cs ! (i + 1)) / 3) * 2) / 2)"
    if "1 \<le> i" and "i < length cs - 1" for i
  proof (rule in_range_round)
    have "i - 1 < length cs" "i < length cs" "i + 1 < length cs" using that by simp_all
    from r [OF this(1)] r [OF this(2)] r [OF this(3)]
    show "- 10 \<le> (cs ! (i - 1) + cs ! i + cs ! (i + 1)) / 3"
      and "(cs ! (i - 1) + cs ! i + cs ! (i + 1)) / 3 \<le> 10" by simp_all
  qed
  then show ?thesis using assms by (auto simp: smoothCorrections_eq)
qed

lemma smoothCorrections_ten: "smoothCorrections (replicate n 10) = replicate n 10"
proof (rule nth_equalityI)
  show "length (smoothCorrections (replicate n 10)) = length (replicate n (10::real))"
    by (simp add: smoothCorrections_eq)
next
  fix i assume "i < length (smoothCorrections (replicate n 10))"
  then have i: "i < n" by (simp add: smoothCorrections_eq)
  show "smoothCorrections (replicate n 10) ! i = replicate n 10 ! i"
  proof (cases "1 \<le> i \<and> i < n - 1")
    case True
    then have "i - 1 < n" "i + 1 < n" by linarith+
    then show ?thesis using i True by (simp add: smoothCorrections_eq Math_round_def)
  next
    case False
    then show ?thesis using i by (auto simp: smoothCorrections_eq)
  qed
qed

lemma Math_max_upper: "Math_max xs = Some m \<Longrightarrow> v \<in> set xs \<Longrightarrow> v \<le> m"
  using fold_max_upper fold_max_ge by (cases xs) auto

lemma targetCurves_new:
  "targetCurves (new_Calibration ap) ''flat'' = Some (replicate 31 0)"
  "targetCurves (new_Calibration ap) ''harman'' = Some (generateHarmanCurve ap)"
  "targetCurves (new_Calibration ap) ''b&k'' = Some (generateBKCurve ap)"
  "targetCurves (new_Calibration ap) ''custom'' = Some (replicate 31 0)"
  by (simp_all add: new_Calibration_def)

lemma getFrequencies_new:
  "getFrequencies (audioProcessor ((new_Calibration (new_AudioProcessor sr))\<lparr>measurementData := ms\<rparr>))
     = iso_bands"
  by (simp add: new_Calibration_def getFrequencies_def frequencies_new)

lemma calculateCorrections_shape:
  assumes "measurementData c \<noteq> []" and "targetCurves c name = Some curve"
    and "getFrequencies (audioProcessor c) = iso_bands"
  shows "\<exists>norm. length norm = 31 \<and> (\<forall>v\<in>set norm. v \<le> referenceLevel c) \<and>
           calculateCorrections c name smoothing =
             Inr (map Finite
                    (smoothCorrections
                       (map (\<lambda>i. band_correction (curve ! i) (norm ! i)) [0..<31])))"
proof -
  obtain avg where avg: "averageMeasurements c = Inr avg"
    using assms(1) by (simp add: averageMeasurements_eq)
  define smoothed where
    "smoothed = applySmoothing c (extractFrequencyResponse c avg iso_bands) smoothing"
  have len: "length smoothed = 31"
    by (simp add: smoothed_def length_applySmoothing extractFrequencyResponse_def
        length_iso_bands)
  then obtain m where m: "Math_max smoothed = Some m" by (cases smoothed) simp_all
  define norm where "norm = map (\<lambda>v. v - m + referenceLevel c) smoothed"
  have "\<forall>v\<in>set norm. v \<le> referenceLevel c"
    using Math_max_upper [OF m] by (auto simp: norm_def)
  moreover have "length norm = 31" using len by (simp add: norm_def)
  moreover have "calculateCorrections c name smoothing =
      Inr (map Finite
             (smoothCorrections (map (\<lambda>i. band_correction (curve ! i) (norm ! i)) [0..<31])))"
    using assms avg m
    by (simp add: calculateCorrections_def Let_def smoothed_def [symmetric] norm_def
        length_iso_bands)
  ultimately show ?thesis by blast
qed

lemma calculateCorrections_all_ten:
  assumes "measurementData c \<noteq> []" and "targetCurves c name = Some curve"
    and "getFrequencies (audioProcessor c) = iso_bands"
    and "\<forall>i<31. referenceLevel c + 100 / 7 \<le> curve ! i"
  shows "calculateCorrections c name smoothing = Inr (replicate 31 (Finite 10))"
proof -
  obtain norm where n: "length norm = 31" "\<forall>v\<in>set norm. v \<le> referenceLevel c"
    and eq: "calculateCorrections c name smoothing =
      Inr (map Finite
             (smoothCorrections (map (\<lambda>i. band_correction (curve ! i) (norm ! i)) [0..<31])))"
    using calculateCorrections_shape [OF assms(1-3)] by blast
  have "band_correction (curve ! i) (norm ! i) = 10" if "i < 31" for i
  proof (rule band_correction_ten)
    have "norm ! i \<le> referenceLevel c" using n that by simp
    then show "norm ! i + 100 / 7 \<le> curve ! i" using assms(4) that by fastforce
  qed
  then have "map (\<lambda>i. band_correction (curve ! i) (norm ! i)) [0..<31] = map (\<lambda>i. 10) [0..<31]"
    by (intro map_cong) simp_all
  then show ?thesis by (simp add: eq map_replicate_const smoothCorrections_ten)
qed

lemma iso_upper: "i < 31 \<Longrightarrow> iso_bands ! i \<le> 20000"
proof -
  assume i: "i < 31"
  have "\<forall>x\<in>set iso_bands. x \<le> 20000" by (simp add: iso_bands_def new_AudioProcessor_def)
  moreover have "iso_bands ! i \<in> set iso_bands" using i by (simp add: length_iso_bands)
  ultimately show ?thesis by blast
qed

lemma recognized_curve_floor:
  assumes "name \<in> {''flat'', ''harman'', ''b&k'', ''custom''}"
  shows "\<exists>curve. targetCurves (new_Calibration (new_AudioProcessor sr)) name = Some curve \<and>
           (\<forall>i<31. - 40 / 7 \<le> curve ! i)"
proof -
  let ?ap = "new_AudioProcessor sr"
  have harman: "\<forall>i<31. - 40 / 7 \<le> generateHarmanCurve ?ap ! i"
    by (simp add: generateHarmanCurve_def getFrequencies_def frequencies_new length_iso_bands)
  have bk: "- 40 / 7 \<le> generateBKCurve ?ap ! i" if "i < 31" for i
  proof -
    have pos: "0 < iso_bands ! i" and up: "iso_bands ! i \<le> 20000"
      using that by (simp_all add: iso_pos iso_upper)
    have "log 10 ((10::real) ^ 5) = real 5 * log 10 10" by (rule log_nat_power) simp
    then have l5: "log 10 (100000::real) = 5" by simp
    have "log 10 (iso_bands ! i) \<le> log 10 100000"
      using pos up by (subst log_le_cancel_iff) simp_all
    then have "log 10 (iso_bands ! i) \<le> 5" by (simp only: l5)
    then have "- 40 / 7 \<le> 10 - (log 10 (iso_bands ! i) - 1) * 3.33"
      by (simp add: field_simps)
    moreover have "generateBKCurve ?ap ! i = 10 - (log 10 (iso_bands ! i) - 1) * 3.33"
      using that
      by (simp only: generateBKCurve_def getFrequencies_def frequencies_new length_iso_bands
          Let_def nth_map)
    ultimately show ?thesis by (simp only:)
  qed
  consider "name = ''flat''" | "name = ''harman''" | "name = ''b&k''" | "name = ''custom''"
    using assms by blast
  then show ?thesis
  proof cases
    case 1 then show ?thesis by (simp add: targetCurves_new)
  next
    case 2 then show ?thesis using harman by (simp add: targetCurves_new)
  next
    case 3 then show ?thesis using bk by (simp add: targetCurves_new)
  next
    case 4 then show ?thesis by (simp add: targetCurves_new)
  qed
qed

lemma calculateCorrections_recognized:
  assumes "ms \<noteq> []" and "name \<in> {''flat'', ''harman'', ''b&k'', ''custom''}"
  shows "calculateCorrections ((new_Calibration (new_AudioProcessor sr))\<lparr>measurementData := ms\<rparr>)
           name smoothing = Inr (replicate 31 (Finite 10))"
proof -
  let ?c = "(new_Calibration (new_AudioProcessor sr))\<lparr>measurementData := ms\<rparr>"
  obtain curve where c: "targetCurves (new_Calibration (new_AudioProcessor sr)) name = Some curve"
    and fl: "\<forall>i<31. - 40 / 7 \<le> curve ! i"
    using recognized_curve_floor [OF assms(2)] by blast
  have 1: "measurementData ?c \<noteq> []" using assms(1) by simp
  have 2: "targetCurves ?c name = Some curve" using c by simp
  have 3: "\<forall>i<31. referenceLevel ?c + 100 / 7 \<le> curve ! i"
    using fl by (simp add: new_Calibration_def)
  show ?thesis using 1 2 getFrequencies_new 3 by (rule calculateCorrections_all_ten)
qed

text \<open>
  Names inherited from \<^verbatim>\<open>Object.prototype\<close>: as a smoothing name such a name smooths nothing,
  as a curve name it gives one NaN per band and no error.
\<close>

lemma applySmoothing_inherited:
  "smoothingType \<in> set Object_prototype \<Longrightarrow> applySmoothing c data smoothingType = data"
  by (rule applySmoothing_not_a_number) (auto simp: octaveFraction_def Object_prototype_def)

lemma calculateCorrections_inherited:
  assumes "ms \<noteq> []" and "name \<in> set Object_prototype"
  shows "calculateCorrections ((new_Calibration (new_AudioProcessor sr))\<lparr>measurementData := ms\<rparr>)
           name smoothing = Inr (replicate 31 NaN)"
proof -
  let ?c = "(new_Calibration (new_AudioProcessor sr))\<lparr>measurementData := ms\<rparr>"
  have none: "targetCurves ?c name = None"
    using assms(2) by (auto simp: new_Calibration_def Object_prototype_def)
  have ne: "measurementData ?c \<noteq> []" using assms(1) by simp
  obtain avg where avg: "averageMeasurements ?c = Inr avg"
    using ne by (simp add: averageMeasurements_eq)
  have len: "length (getFrequencies (audioProcessor ?c)) = 31"
    by (simp only: getFrequencies_new length_iso_bands)
  show ?thesis
    using assms ne none avg len
    by (simp add: calculateCorrections_def Let_def)
qed

text \<open>
  C3. For a non-empty list of retained snapshots and each of the four target-curve names of
  the constructor, \<^verbatim>\<open>calculateCorrections\<close> returns a vector of 31 entries, each of them in
  \<open>[-10, 10]\<close> and an integer multiple of 0.5, after the neighbour smoothing and its rounding.
\<close>

theorem calculateCorrections_in_range:
  assumes "ms \<noteq> []" and "name \<in> {''flat'', ''harman'', ''b&k'', ''custom''}"
  shows "\<exists>v. calculateCorrections
                ((new_Calibration (new_AudioProcessor sr))\<lparr>measurementData := ms\<rparr>) name smoothing
              = Inr (map Finite v) \<and>
            length v = 31 \<and> (\<forall>x\<in>set v. - 10 \<le> x \<and> x \<le> 10 \<and> multiple_of_half x)"
proof -
  let ?c = "(new_Calibration (new_AudioProcessor sr))\<lparr>measurementData := ms\<rparr>"
  obtain curve where "targetCurves (new_Calibration (new_AudioProcessor sr)) name = Some curve"
    using recognized_curve_floor [OF assms(2)] by blast
  then have c: "targetCurves ?c name = Some curve" by simp
  have ne: "measurementData ?c \<noteq> []" using assms(1) by simp
  obtain norm where eq: "calculateCorrections ?c name smoothing =
      Inr (map Finite
             (smoothCorrections (map (\<lambda>i. band_correction (curve ! i) (norm ! i)) [0..<31])))"
    using calculateCorrections_shape [OF ne c getFrequencies_new] by blast
  let ?cs = "map (\<lambda>i. band_correction (curve ! i) (norm ! i)) [0..<31]"
  have "\<forall>x\<in>set ?cs. in_range x" by (auto simp: band_correction_in_range)
  then have "\<forall>x\<in>set (smoothCorrections ?cs). in_range x" by (rule smoothCorrections_in_range)
  moreover have "length (smoothCorrections ?cs) = 31" by (simp add: smoothCorrections_eq)
  ultimately show ?thesis unfolding eq in_range_def by blast
qed

theorem calculateCorrections_in_range_witness:
  "[[- 20, - 35, - 50, - 90]] \<noteq> ([] :: real list list) \<and>
   ''harman'' \<in> {''flat'', ''harman'', ''b&k'', ''custom''} \<and>
   (\<exists>v. calculateCorrections
           ((new_Calibration (new_AudioProcessor 44100))\<lparr>measurementData := [[- 20, - 35, - 50, - 90]]\<rparr>)
           ''harman'' ''1/6'' = Inr (map Finite v) \<and>
        length v = 31 \<and> (\<forall>x\<in>set v. - 10 \<le> x \<and> x \<le> 10 \<and> multiple_of_half x))"
proof -
  have h1: "[[- 20, - 35, - 50, - 90]] \<noteq> ([] :: real list list)" by simp
  have h2: "''harman'' \<in> {''flat'', ''harman'', ''b&k'', ''custom''}" by simp
  show ?thesis
    using calculateCorrections_in_range [OF h1 h2, of 44100 "''1/6''"] h2 by simp
qed

text \<open>
  C2. The end-to-end scenario at 48 kHz with 4096 bins: twenty snapshots, each at -20 dB in the
  bins from 100 Hz to 10 kHz and at -60 dB elsewhere, flat target. The code returns +10 dB at
  every one of the 31 bands, the band at 1 kHz (index 17) among them: the response is shifted
  so that its maximum is the reference level -20, and the target 0 is compared with it as it
  is, so no band can come out below 0.7 * 20 before the clamp.
\<close>

theorem plateau_session_corrections:
  "calculateCorrections plateau_session ''flat'' ''1/3'' = Inr (replicate 31 (Finite 10)) \<and>
   iso_bands ! 17 = 1000"
proof -
  have "replicate 20 plateau_snapshot \<noteq> []" by simp
  then have "calculateCorrections plateau_session ''flat'' ''1/3'' = Inr (replicate 31 (Finite 10))"
    unfolding plateau_session_def calibration_with_def
    by (rule calculateCorrections_recognized) simp
  moreover have "iso_bands ! 17 = 1000" by (simp add: iso_bands_def new_AudioProcessor_def)
  ultimately show ?thesis by simp
qed

text \<open>
  C7 (amended). Under the name \<^verbatim>\<open>custom\<close> the constructor stores the all-zero vector of 31
  entries, the same as under \<^verbatim>\<open>flat\<close>; no operation takes a vector from the caller and none
  raises an error for the curve. A run with \<^verbatim>\<open>custom\<close> returns what the run with \<^verbatim>\<open>flat\<close>
  returns.
\<close>

theorem custom_curve_is_flat:
  "targetCurves (new_Calibration ap) ''custom'' = Some (replicate 31 0) \<and>
   calculateCorrections ((new_Calibration ap)\<lparr>measurementData := ms\<rparr>) ''custom'' smoothing
     = calculateCorrections ((new_Calibration ap)\<lparr>measurementData := ms\<rparr>) ''flat'' smoothing"
  by (simp add: calculateCorrections_def targetCurves_new Let_def split: sum.split)

text \<open>
  A run with \<^verbatim>\<open>custom\<close> on a freshly constructed object, to which no curve was supplied,
  returns a vector and no error.
\<close>

theorem custom_curve_counterexample:
  "calculateCorrections (calibration_with [[- 20, - 20, - 20, - 20]]) ''custom'' ''1/3''
     = Inr (replicate 31 (Finite 10))"
  unfolding calibration_with_def by (rule calculateCorrections_recognized) simp_all

section \<open>The averaged spectrum on numbers with their range\<close>

lemma overflow_bound_large: "(10::real) ^ 308 < overflow_bound"
  by (simp add: overflow_bound_def)

lemma overflow_bound_pos: "0 < overflow_bound"
  using overflow_bound_large by (rule less_trans [rotated]) simp

lemma underflow_bound_small: "underflow_bound < 1 / (10::real) ^ 8" and underflow_bound_pos: "0 < underflow_bound"
  by (simp_all add: underflow_bound_def)

lemma double_pos:
  assumes "underflow_bound < lo" and "lo \<le> x"
  shows "pos_num lo (double x)"
proof -
  have "0 < x" using assms underflow_bound_pos by linarith
  then show ?thesis
    using assms overflow_bound_pos by (auto simp: double_def pos_num_def)
qed

lemma pos_num_pow10:
  assumes "- 80 < v"
  shows "pos_num (1 / 10 ^ 4) (Math_pow10 (v / 20))"
proof -
  have "(10::real) powr (- 4) \<le> 10 powr (v / 20)" using assms by simp
  moreover have "(10::real) powr (- 4) = 1 / 10 ^ 4" by (simp add: powr_minus_divide)
  ultimately have "1 / 10 ^ 4 \<le> (10::real) powr (v / 20)" by simp
  moreover have "underflow_bound < 1 / (10::real) ^ 4"
    using underflow_bound_small by (rule less_trans) simp
  ultimately show ?thesis unfolding Math_pow10_def by (intro double_pos)
qed

lemma pos_num_mul:
  assumes "pos_num a x" and "pos_num b y" and "0 < a" and "0 < b" and "underflow_bound < a * b"
  shows "pos_num (a * b) (n_mul x y)"
proof (cases x)
  case (Finite u)
  then have u: "a \<le> u" using assms(1) by (simp add: pos_num_def)
  show ?thesis
  proof (cases y)
    case (Finite w)
    then have w: "b \<le> w" using assms(2) by (simp add: pos_num_def)
    have "a * b \<le> u * w" using u w assms(3,4) by (intro mult_mono) simp_all
    then show ?thesis using \<open>x = Finite u\<close> Finite assms(5) by (simp add: double_pos)
  next
    case PosInf
    then show ?thesis using \<open>x = Finite u\<close> u assms(3) by (simp add: signed_inf_def pos_num_def)
  qed (use assms(2) in \<open>simp_all add: pos_num_def\<close>)
next
  case PosInf
  show ?thesis
  proof (cases y)
    case (Finite w)
    then have "b \<le> w" using assms(2) by (simp add: pos_num_def)
    then show ?thesis using PosInf Finite assms(4) by (simp add: signed_inf_def pos_num_def)
  next
    case PosInf
    then show ?thesis using \<open>x = PosInf\<close> by (simp add: pos_num_def)
  qed (use assms(2) in \<open>simp_all add: pos_num_def\<close>)
qed (use assms(1) in \<open>simp_all add: pos_num_def\<close>)

lemma pos_num_add:
  assumes "pos_num a x" and "pos_num b y" and "underflow_bound < a + b"
  shows "pos_num (a + b) (n_add x y)"
proof (cases x)
  case (Finite u)
  then have u: "a \<le> u" using assms(1) by (simp add: pos_num_def)
  show ?thesis
  proof (cases y)
    case (Finite w)
    then have "b \<le> w" using assms(2) by (simp add: pos_num_def)
    then have "a + b \<le> u + w" using u by simp
    then show ?thesis using \<open>x = Finite u\<close> Finite assms(3) by (simp add: double_pos)
  next
    case PosInf
    then show ?thesis using \<open>x = Finite u\<close> by (simp add: pos_num_def)
  qed (use assms(2) in \<open>simp_all add: pos_num_def\<close>)
next
  case PosInf
  show ?thesis
    using assms(2) PosInf by (cases y) (simp_all add: pos_num_def)
qed (use assms(1) in \<open>simp_all add: pos_num_def\<close>)

lemma pos_num_div_count:
  assumes "pos_num (real n * t) x" and "0 < n" and "underflow_bound < t"
  shows "pos_num t (n_div_count x n)"
proof (cases x)
  case (Finite u)
  then have "real n * t \<le> u" using assms(1) by (simp add: pos_num_def)
  then have "t \<le> u / real n" using assms(2) by (simp add: pos_le_divide_eq mult.commute)
  then show ?thesis using Finite assms(2,3) by (simp add: double_pos)
next
  case PosInf
  then show ?thesis by (simp add: pos_num_def)
qed (use assms(1) in \<open>simp_all add: pos_num_def\<close>)

lemma pos_num_sqrt:
  assumes "pos_num t x" and "0 \<le> t" and "underflow_bound < sqrt t"
  shows "pos_num (sqrt t) (Math_sqrt x)"
proof (cases x)
  case (Finite u)
  then have u: "t \<le> u" using assms(1) by (simp add: pos_num_def)
  then have "sqrt t \<le> sqrt u" by simp
  moreover have "\<not> u < 0" using u assms(2) by simp
  ultimately show ?thesis using Finite assms(3) by (simp add: double_pos)
next
  case PosInf
  then show ?thesis by (simp add: pos_num_def)
qed (use assms(1) in \<open>simp_all add: pos_num_def\<close>)

lemma log10_below_overflow:
  assumes "0 < a" and "a < overflow_bound"
  shows "log 10 a < 309"
proof -
  have "a < (10::real) ^ 309" using assms(2) by (rule less_trans) (simp add: overflow_bound_def)
  then have "log 10 a < log 10 ((10::real) ^ 309)"
    using assms(1) by (subst log_less_cancel_iff) simp_all
  also have "log 10 ((10::real) ^ 309) = real 309 * log 10 10" by (rule log_nat_power) simp
  finally show ?thesis by simp
qed

lemma at_least_decibels:
  assumes "pos_num (1 / 10 ^ 4) x"
  shows "at_least (n_mul (Finite 20) (Math_log10 x)) (- 80)"
proof (cases x)
  case (Finite a)
  then have lo: "1 / 10 ^ 4 \<le> a" and hi: "a < overflow_bound"
    using assms by (simp_all add: pos_num_def)
  have pos: "0 < a" using lo by (rule less_le_trans [rotated]) simp
  have "log 10 (1 / 10 ^ 4) \<le> log 10 a"
    using lo pos by (subst log_le_cancel_iff) simp_all
  moreover have "log 10 (1 / (10::real) ^ 4) = - 4"
  proof -
    have "log 10 ((10::real) ^ 4) = real 4 * log 10 10" by (rule log_nat_power) simp
    then show ?thesis by (simp add: log_divide)
  qed
  ultimately have l_lo: "- 4 \<le> log 10 a" by simp
  have l_hi: "log 10 a < 309" using pos hi by (rule log10_below_overflow)
  have big: "(6180::real) < overflow_bound"
    using overflow_bound_large by (rule less_trans [rotated]) simp
  have range: "at_least (double (20 * w)) (- 80)" if "- 4 \<le> w" and "w < 309" for w
    using that big by (auto simp: double_def)
  have "Math_log10 x = Finite 0 \<or> Math_log10 x = Finite (log 10 a)"
    using Finite pos l_lo l_hi big by (auto simp: double_def)
  then show ?thesis
  proof
    assume "Math_log10 x = Finite 0"
    then show ?thesis using range [of 0] by simp
  next
    assume "Math_log10 x = Finite (log 10 a)"
    then show ?thesis using range [OF l_lo l_hi] by simp
  qed
next
  case PosInf
  then show ?thesis by (simp add: signed_inf_def)
qed (use assms in \<open>simp_all add: pos_num_def\<close>)

lemma avg_inner_ieee_invariant:
  assumes "pos_num (real n / 10 ^ 8) s"
  shows "pos_num (real (snd (avg_inner_ieee (- 80) i ms (s, n))) / 10 ^ 8)
           (fst (avg_inner_ieee (- 80) i ms (s, n)))"
  using assms
proof (induction ms arbitrary: s n)
  case Nil
  then show ?case by simp
next
  case (Cons m ms)
  show ?case
  proof (cases "i < length m \<and> m ! i > - 80")
    case False
    then show ?thesis using Cons by auto
  next
    case True
    let ?l = "Math_pow10 (m ! i / 20)"
    have l: "pos_num (1 / 10 ^ 4) ?l" using True by (intro pos_num_pow10) simp
    have u8: "underflow_bound < 1 / (10::real) ^ 8" by (rule underflow_bound_small)
    have "pos_num (1 / 10 ^ 4 * (1 / 10 ^ 4)) (n_mul ?l ?l)"
      using l l by (rule pos_num_mul) (use u8 in simp_all)
    then have sq: "pos_num (1 / 10 ^ 8) (n_mul ?l ?l)" by simp
    have "pos_num (real n / 10 ^ 8 + 1 / 10 ^ 8) (n_add s (n_mul ?l ?l))"
      using Cons.prems sq
    proof (rule pos_num_add)
      have "(0::real) \<le> real n / 10 ^ 8" by simp
      then show "underflow_bound < real n / 10 ^ 8 + 1 / 10 ^ 8" using u8 by linarith
    qed
    moreover have "real n / 10 ^ 8 + 1 / 10 ^ 8 = real (n + 1) / 10 ^ 8"
      by (simp add: add_divide_distrib)
    ultimately have "pos_num (real (n + 1) / 10 ^ 8) (n_add s (n_mul ?l ?l))"
      by (simp only:)
    from Cons.IH [OF this] show ?thesis using True by (simp add: Let_def)
  qed
qed

lemma sqrt_floor_power: "sqrt (1 / (10::real) ^ 8) = 1 / 10 ^ 4"
  by (rule real_sqrt_unique) (simp_all add: power2_eq_square)

lemma avg_bin_ieee_at_least: "at_least (avg_bin_ieee (- 80) ms i) (- 80)"
proof -
  obtain s n where r: "avg_inner_ieee (- 80) i ms (Finite 0, 0) = (s, n)" by fastforce
  have "pos_num (real (0::nat) / 10 ^ 8) (Finite 0)"
    using overflow_bound_pos by (simp add: pos_num_def)
  from avg_inner_ieee_invariant [OF this, of i ms]
  have inv: "pos_num (real n / 10 ^ 8) s" by (simp add: r)
  show ?thesis
  proof (cases "n > 0")
    case False
    then show ?thesis by (simp add: avg_bin_ieee_def r)
  next
    case True
    have "pos_num (real n * (1 / 10 ^ 8)) s" using inv by simp
    then have "pos_num (1 / 10 ^ 8) (n_div_count s n)"
      using True underflow_bound_small by (rule pos_num_div_count)
    then have "pos_num (sqrt (1 / 10 ^ 8)) (Math_sqrt (n_div_count s n))"
    proof (rule pos_num_sqrt)
      have "underflow_bound < 1 / (10::real) ^ 4"
        using underflow_bound_small by (rule less_trans) simp
      then show "underflow_bound < sqrt (1 / 10 ^ 8)"
        by (simp only: sqrt_floor_power)
    qed simp
    then have "pos_num (1 / 10 ^ 4) (Math_sqrt (n_div_count s n))"
      by (simp only: sqrt_floor_power)
    then have "at_least (n_mul (Finite 20) (Math_log10 (Math_sqrt (n_div_count s n)))) (- 80)"
      by (rule at_least_decibels)
    then show ?thesis using True by (simp add: avg_bin_ieee_def r Let_def)
  qed
qed

lemma avg_inner_ieee_no_contributor:
  "contributors nf ms i = [] \<Longrightarrow> avg_inner_ieee nf i ms acc = acc"
proof (induction ms)
  case Nil
  then show ?case by simp
next
  case (Cons m ms)
  then have skip: "\<not> (i < length m \<and> m ! i > nf)" and rest: "contributors nf ms i = []"
    by (auto simp: contributors_def split: if_splits)
  obtain a b where acc: "acc = (a, b)" by (cases acc)
  have "avg_inner_ieee nf i (m # ms) (a, b) = avg_inner_ieee nf i ms (a, b)"
    using skip by auto
  then show ?case using Cons.IH [OF rest] by (simp only: acc)
qed

lemma avg_bin_ieee_no_contributor:
  "contributors nf ms i = [] \<Longrightarrow> avg_bin_ieee nf ms i = Finite nf"
  by (simp add: avg_bin_ieee_def avg_inner_ieee_no_contributor)

lemma averageMeasurements_ieee_eq:
  "measurementData c \<noteq> [] \<Longrightarrow>
   averageMeasurements_ieee c =
     Inr (map (avg_bin_ieee (noiseFloor c) (measurementData c))
              [0..<length (hd (measurementData c))])"
  by (simp add: averageMeasurements_ieee_def Let_def fold_update_upt)

text \<open>
  C9 (amended). On the numbers of the source with their range, for every object of the
  constructor and every non-empty list of snapshots with finite values, every bin of the
  spectrum that \<^verbatim>\<open>averageMeasurements\<close> returns is at least the noise floor -80: it is never
  below the floor, never NaN and never \<^verbatim>\<open>-Infinity\<close>, and a bin without a contributor is the
  floor itself. A bin can be \<^verbatim>\<open>+Infinity\<close>.
\<close>

theorem averageMeasurements_ieee_ge_floor:
  assumes "ms \<noteq> []"
  shows "\<exists>averaged.
           averageMeasurements_ieee ((new_Calibration ap)\<lparr>measurementData := ms\<rparr>) = Inr averaged \<and>
           length averaged = length (hd ms) \<and>
           (\<forall>x\<in>set averaged. at_least x (- 80)) \<and>
           (\<forall>i<length (hd ms). contributors (- 80) ms i = [] \<longrightarrow> averaged ! i = Finite (- 80))"
proof -
  let ?c = "(new_Calibration ap)\<lparr>measurementData := ms\<rparr>"
  have nf: "noiseFloor ?c = - 80" by (simp add: new_Calibration_def)
  have "measurementData ?c \<noteq> []" using assms by simp
  then have "averageMeasurements_ieee ?c =
      Inr (map (avg_bin_ieee (- 80) ms) [0..<length (hd ms)])"
    using averageMeasurements_ieee_eq [of ?c] by (simp add: nf)
  then show ?thesis by (auto simp: avg_bin_ieee_at_least avg_bin_ieee_no_contributor)
qed

text \<open>
  One snapshot with the finite level 4000 dB at both bins: the amplitude \<open>10 ^ 200\<close> is a finite
  number, its square is beyond the range and the bin is \<^verbatim>\<open>+Infinity\<close>.
\<close>

theorem averageMeasurements_infinite_counterexample:
  "averageMeasurements_ieee (calibration_with [[4000, 4000]]) = Inr [PosInf, PosInf]"
proof -
  have p: "(10::real) powr 200 = 10 ^ 200"
    using powr_realpow [of "10::real" 200] by simp
  have lin: "Math_pow10 (4000 / 20) = Finite (10 ^ 200)"
    by (simp add: Math_pow10_def p double_def overflow_bound_def underflow_bound_def)
  have sq: "n_mul (Finite (10 ^ 200)) (Finite (10 ^ 200)) = PosInf"
    by (simp add: double_def overflow_bound_def)
  have bin: "avg_bin_ieee (- 80) [[4000, 4000]] i = PosInf" if "i < 2" for i
  proof -
    have "[4000, 4000 :: real] ! i = 4000" using that by (cases i) simp_all
    then show ?thesis
      using that lin sq by (simp add: avg_bin_ieee_def Let_def signed_inf_def)
  qed
  have up: "[0..<2] = [0, 1]" by (simp add: upt_rec)
  show ?thesis
    by (simp add: averageMeasurements_ieee_eq calibration_with_def new_Calibration_def up bin)
qed

theorem averageMeasurements_ieee_ge_floor_witness:
  "[[- 20, - 90, 4000]] \<noteq> ([] :: real list list) \<and>
   contributors (- 80) [[- 20, - 90, 4000]] 1 = [] \<and>
   (\<exists>averaged.
      averageMeasurements_ieee
        ((new_Calibration (new_AudioProcessor 48000))\<lparr>measurementData := [[- 20, - 90, 4000]]\<rparr>)
        = Inr averaged \<and>
      length averaged = 3 \<and> list_all (\<lambda>x. at_least x (- 80)) averaged \<and>
      averaged ! 1 = Finite (- 80))"
proof -
  have h: "[[- 20, - 90, 4000]] \<noteq> ([] :: real list list)" by simp
  have none: "contributors (- 80) [[- 20, - 90, 4000]] 1 = []"
    by (simp add: contributors_def)
  show ?thesis
    using averageMeasurements_ieee_ge_floor [OF h, of "new_AudioProcessor 48000"] none
    by (auto simp: list_all_iff numeral_3_eq_3)
qed

end
